theory Spec2Isabelle
  imports Complex_Main "HOL-Library.Char_ord" "HOL-Library.List_Lexorder"
    "HOL-Library.Product_Lexorder"
begin

section \<open>The embedding-indexed document store of \<^verbatim>\<open>backend/vector_store.py\<close>\<close>

text \<open>
  This theory embeds \<^verbatim>\<open>SimpleVectorStore\<close> and settles the specification's claims about
  it. Conventions of the embedding:
  \<^item> a Python \<^verbatim>\<open>dict\<close> is an association list in insertion order with distinct keys
    (assigning to a present key keeps its position, as in Python);
  \<^item> an operation that can raise returns \<open>error + 'a\<close>; where the object has already been
    mutated when the exception leaves the method, the store reached is returned beside it;
  \<^item> a float is a real number: rounding, overflow and underflow are not modelled. What is
    modelled of IEEE arithmetic is the value of a division by zero (\<open>NaN\<close>, \<open>\<plusminus>inf\<close>),
    that every comparison with \<open>NaN\<close> is false, and where NumPy sorts \<open>NaN\<close>;
  \<^item> text is a \<open>string\<close> (the bytes of its UTF-8 encoding);
  \<^item> the embedding call, the clock, the outcome of the disk write and the order in which
    NumPy's sort leaves equal values are parameters.
\<close>

subsection \<open>Errors\<close>

datatype error = ValueError | TypeError | KeyError | IndexError | OSError | EncodeError

subsection \<open>Records\<close>

text \<open>Metadata values: the store itself writes integers (\<^verbatim>\<open>chunk_index\<close>) and its callers
  write strings (\<^verbatim>\<open>source\<close>).\<close>

datatype meta_value = is_MInt: MInt (the_int: int) | is_MStr: MStr (the_str: string)

type_synonym meta = "(string \<times> meta_value) list"

text \<open>The dataclass \<^verbatim>\<open>Document\<close>; its field \<^verbatim>\<open>id\<close> is \<open>ident\<close> here (\<open>id\<close> is the
  identity function of HOL).\<close>

record Document =
  ident :: string
  doc_id :: string
  content :: string
  embedding :: "real list"
  metadata :: meta
  created_at :: string

subsection \<open>Dictionaries in insertion order\<close>

type_synonym ('k, 'v) dict = "('k \<times> 'v) list"

fun dict_set :: "('k, 'v) dict \<Rightarrow> 'k \<Rightarrow> 'v \<Rightarrow> ('k, 'v) dict" where
  "dict_set [] k v = [(k, v)]"
| "dict_set ((k', v') # kvs) k v =
     (if k' = k then (k, v) # kvs else (k', v') # dict_set kvs k v)"

fun dict_del :: "('k, 'v) dict \<Rightarrow> 'k \<Rightarrow> ('k, 'v) dict" where
  "dict_del [] k = []"
| "dict_del ((k', v') # kvs) k = (if k' = k then kvs else (k', v') # dict_del kvs k)"

definition dict_get :: "('k, 'v) dict \<Rightarrow> 'k \<Rightarrow> error + 'v" where
  "dict_get d k = (case map_of d k of None \<Rightarrow> Inl KeyError | Some v \<Rightarrow> Inr v)"

definition dict_get_default :: "('k, 'v) dict \<Rightarrow> 'k \<Rightarrow> 'v \<Rightarrow> 'v" where
  "dict_get_default d k dflt = (case map_of d k of None \<Rightarrow> dflt | Some v \<Rightarrow> v)"

definition keys :: "('k, 'v) dict \<Rightarrow> 'k list" where
  "keys d = map fst d"

definition vals :: "('k, 'v) dict \<Rightarrow> 'v list" where
  "vals d = map snd d"

subsection \<open>The snapshot file\<close>

text \<open>
  \<^verbatim>\<open>documents.json\<close> holds one JSON array of objects. Its text is modelled as the list of
  the array's tokens, each object being one token: \<open>Obj d\<close> is an object with exactly the six
  fields of \<^verbatim>\<open>Document\<close>, \<open>Malformed\<close> any other JSON value, on which
  \<^verbatim>\<open>Document(**doc_data)\<close> raises \<^verbatim>\<open>TypeError\<close>. A file may also hold a JSON value that
  is not an array, one token: \<open>Members n\<close> is an object with \<open>n\<close> keys or a string of \<open>n\<close>
  characters (iterating it yields \<open>n\<close> strings), \<open>Scalar\<close> a number, \<^verbatim>\<open>true\<close>,
  \<^verbatim>\<open>false\<close> or \<^verbatim>\<open>null\<close>. \<open>json_dump\<close> is the text that \<^verbatim>\<open>json.dump\<close> writes for a
  list of records; \<open>json_load\<close> is \<^verbatim>\<open>json.load\<close>, which returns the value of a complete
  text and raises on any other.
\<close>

datatype json_entry = Obj Document | Malformed

datatype json_atom = Members nat | Scalar

datatype json_token = LBracket | Item json_entry | Comma | RBracket | Atom json_atom

datatype json_value = JArray "json_entry list" | JAtom json_atom

type_synonym file_text = "json_token list"

fun dump_items :: "json_entry list \<Rightarrow> file_text" where
  "dump_items [] = []"
| "dump_items [e] = [Item e]"
| "dump_items (e # es) = Item e # Comma # dump_items es"

definition json_dump :: "json_entry list \<Rightarrow> file_text" where
  "json_dump es = LBracket # dump_items es @ [RBracket]"

fun load_items :: "file_text \<Rightarrow> json_entry list option" where
  "load_items [Item e, RBracket] = Some [e]"
| "load_items (Item e # Comma # ts) = map_option ((#) e) (load_items ts)"
| "load_items ts = None"

fun json_load :: "file_text \<Rightarrow> json_value option" where
  "json_load [Atom a] = Some (JAtom a)"
| "json_load (LBracket # rest) =
     (if rest = [RBracket] then Some (JArray []) else map_option JArray (load_items rest))"
| "json_load ts = None"

text \<open>
  Writing: \<^verbatim>\<open>open(data_file, "w")\<close> truncates the file in place, then \<^verbatim>\<open>json.dump\<close> appends
  the text piece by piece. The write is a list of file operations; a write that is
  interrupted or fails has run a strict prefix of it.
\<close>

datatype file_op = Truncate | Append json_token

fun apply_op :: "file_text option \<Rightarrow> file_op \<Rightarrow> file_text option" where
  "apply_op f Truncate = Some []"
| "apply_op f (Append t) = Some ((case f of None \<Rightarrow> [] | Some ts \<Rightarrow> ts) @ [t])"

definition run_ops :: "file_text option \<Rightarrow> file_op list \<Rightarrow> file_text option" where
  "run_ops f ops = foldl apply_op f ops"

subsection \<open>The store\<close>

text \<open>The three attributes of \<^verbatim>\<open>SimpleVectorStore\<close>, and \<open>data_file\<close>: the text of
  \<^verbatim>\<open>documents.json\<close> under \<^verbatim>\<open>persist_path\<close> (\<open>None\<close> when the file does not exist).\<close>

record store =
  documents :: "(string, Document) dict"
  embeddings :: "real list list option"
  doc_ids :: "string list"
  data_file :: "file_text option"

text \<open>\<^verbatim>\<open>np.array\<close> of a list of rows: rows of different lengths raise \<^verbatim>\<open>ValueError\<close>.\<close>

definition np_array :: "real list list \<Rightarrow> error + real list list" where
  "np_array rows =
     (if list_all (\<lambda>r. length r = length (hd rows)) rows then Inr rows else Inl ValueError)"

fun lookup_embeddings :: "(string, Document) dict \<Rightarrow> string list \<Rightarrow> error + real list list" where
  "lookup_embeddings d [] = Inr []"
| "lookup_embeddings d (k # ks) =
     (case dict_get d k of
        Inl e \<Rightarrow> Inl e
      | Inr doc \<Rightarrow>
          (case lookup_embeddings d ks of Inl e \<Rightarrow> Inl e | Inr rows \<Rightarrow> Inr (embedding doc # rows)))"

definition rebuild_index :: "store \<Rightarrow> (error + unit) \<times> store" where
  "rebuild_index s =
     (if documents s \<noteq> [] then
        (let s1 = s\<lparr>doc_ids := keys (documents s)\<rparr> in
         case lookup_embeddings (documents s1) (doc_ids s1) of
           Inl e \<Rightarrow> (Inl e, s1)
         | Inr embs \<Rightarrow>
             (case np_array embs of
                Inl e \<Rightarrow> (Inl e, s1)
              | Inr m \<Rightarrow> (Inr (), s1\<lparr>embeddings := Some m\<rparr>)))
      else (Inr (), s\<lparr>embeddings := None, doc_ids := []\<rparr>))"

text \<open>\<^verbatim>\<open>_save\<close>. The parameter \<open>io\<close> is the outcome of the write: \<open>None\<close> when every file
  operation succeeds, \<open>Some n\<close> when the write fails after \<open>n\<close> operations (\<open>Some 0\<close>: the
  file could not be opened), which raises \<^verbatim>\<open>OSError\<close>; a write of no more than \<open>n\<close>
  operations completes.\<close>

definition save_ops :: "store \<Rightarrow> file_op list" where
  "save_ops s = Truncate # map Append (json_dump (map Obj (vals (documents s))))"

definition save :: "nat option \<Rightarrow> store \<Rightarrow> (error + unit) \<times> store" where
  "save io s =
     (case io of
        None \<Rightarrow> (Inr (), s\<lparr>data_file := run_ops (data_file s) (save_ops s)\<rparr>)
      | Some n \<Rightarrow>
          (if n < length (save_ops s)
           then (Inl OSError, s\<lparr>data_file := run_ops (data_file s) (take n (save_ops s))\<rparr>)
           else (Inr (), s\<lparr>data_file := run_ops (data_file s) (save_ops s)\<rparr>)))"

subsection \<open>Embeddings\<close>

text \<open>
  \<^verbatim>\<open>_get_embedding\<close>. The model (\<open>None\<close> when \<^verbatim>\<open>sentence_transformers\<close> is missing), the
  digest \<^verbatim>\<open>int(hashlib.md5(...).hexdigest(), 16)\<close>, and NumPy's global generator are not code
  of the repository; they are parameters: \<open>seed_rng n\<close> is the generator state that
  \<^verbatim>\<open>np.random.seed(n)\<close> installs (it replaces the state, whatever it was), \<open>gauss\<close> draws one
  normal sample and advances the state. The generator state is threaded through.
\<close>

fun randn :: "('g \<Rightarrow> real \<times> 'g) \<Rightarrow> nat \<Rightarrow> 'g \<Rightarrow> real list \<times> 'g" where
  "randn gauss 0 g = ([], g)"
| "randn gauss (Suc n) g =
     (case gauss g of (x, g1) \<Rightarrow> (case randn gauss n g1 of (xs, g2) \<Rightarrow> (x # xs, g2)))"

definition get_embedding ::
  "(string \<Rightarrow> error + real list) option \<Rightarrow> (string \<Rightarrow> nat) \<Rightarrow> (nat \<Rightarrow> 'g) \<Rightarrow>
   ('g \<Rightarrow> real \<times> 'g) \<Rightarrow> string \<Rightarrow> 'g \<Rightarrow> (error + real list) \<times> 'g" where
  "get_embedding model md5 seed_rng gauss text g =
     (case model of
        None \<Rightarrow>
          (let hash_val = md5 text;
               g1 = seed_rng (hash_val mod 2 ^ 32)
           in case randn gauss 384 g1 of (v, g2) \<Rightarrow> (Inr v, g2))
      | Some encode \<Rightarrow> (encode text, g))"

subsection \<open>\<^verbatim>\<open>add\<close>\<close>

text \<open>Decimal digits of a natural number, for \<^verbatim>\<open>f"{doc_id}_chunk_{i}"\<close>.\<close>

definition digit_char :: "nat \<Rightarrow> char" where
  "digit_char d = ''0123456789'' ! d"

function str_nat :: "nat \<Rightarrow> string" where
  "str_nat n = (if n < 10 then [digit_char n] else str_nat (n div 10) @ [digit_char (n mod 10)])"
  by pat_completeness auto
termination
  by (relation "measure id") auto

declare str_nat.simps [simp del]

definition chunk_id :: "string \<Rightarrow> nat \<Rightarrow> string" where
  "chunk_id d i = d @ ''_chunk_'' @ str_nat i"

text \<open>
  In the operations below \<open>emb\<close> is the call \<^verbatim>\<open>self._get_embedding\<close> (its result or the
  exception it raises) and \<open>now i\<close> is what \<^verbatim>\<open>datetime.now().isoformat()\<close> returns for the
  chunk at position \<open>i\<close>.

  The loop of \<^verbatim>\<open>add\<close>: \<open>i\<close> is the position of the next text, \<open>docs\<close> is
  \<^verbatim>\<open>self.documents\<close>, \<open>added\<close> the counter. An exception of the embedding call leaves the
  loop with the dictionary as it is at that moment.
\<close>

definition new_document :: "string \<Rightarrow> nat \<Rightarrow> string \<Rightarrow> real list \<Rightarrow> meta \<Rightarrow> string \<Rightarrow> Document" where
  "new_document d i text v md t =
     \<lparr>ident = chunk_id d i, doc_id = d, content = text, embedding = v,
      metadata = dict_set md ''chunk_index'' (MInt (int i)), created_at = t\<rparr>"

fun add_loop ::
  "(string \<Rightarrow> error + real list) \<Rightarrow> (nat \<Rightarrow> string) \<Rightarrow> string \<Rightarrow> meta \<Rightarrow> nat \<Rightarrow> string list \<Rightarrow>
   (string, Document) dict \<Rightarrow> nat \<Rightarrow> (error + nat) \<times> (string, Document) dict" where
  "add_loop emb now d md i [] docs added = (Inr added, docs)"
| "add_loop emb now d md i (text # texts) docs added =
     (case emb text of
        Inl e \<Rightarrow> (Inl e, docs)
      | Inr v \<Rightarrow>
          add_loop emb now d md (Suc i) texts
            (dict_set docs (chunk_id d i) (new_document d i text v md (now i))) (added + 1))"

definition add ::
  "(string \<Rightarrow> error + real list) \<Rightarrow> (nat \<Rightarrow> string) \<Rightarrow> nat option \<Rightarrow> store \<Rightarrow> string \<Rightarrow>
   string list \<Rightarrow> meta \<Rightarrow> (error + nat) \<times> store" where
  "add emb now io s d texts md =
     (case add_loop emb now d md 0 texts (documents s) 0 of
        (Inl e, docs) \<Rightarrow> (Inl e, s\<lparr>documents := docs\<rparr>)
      | (Inr added, docs) \<Rightarrow>
          (case rebuild_index (s\<lparr>documents := docs\<rparr>) of
             (Inl e, s1) \<Rightarrow> (Inl e, s1)
           | (Inr _, s1) \<Rightarrow>
               (case save io s1 of
                  (Inl e, s2) \<Rightarrow> (Inl e, s2)
                | (Inr _, s2) \<Rightarrow> (Inr added, s2))))"

subsection \<open>\<^verbatim>\<open>delete_by_doc_id\<close>\<close>

definition delete_by_doc_id :: "nat option \<Rightarrow> store \<Rightarrow> string \<Rightarrow> (error + bool) \<times> store" where
  "delete_by_doc_id io s d =
     (let to_delete = map fst (filter (\<lambda>(k, v). doc_id v = d) (documents s)) in
      if to_delete = [] then (Inr False, s)
      else
        (case rebuild_index (s\<lparr>documents := foldl dict_del (documents s) to_delete\<rparr>) of
           (Inl e, s1) \<Rightarrow> (Inl e, s1)
         | (Inr _, s1) \<Rightarrow>
             (case save io s1 of
                (Inl e, s2) \<Rightarrow> (Inl e, s2)
              | (Inr _, s2) \<Rightarrow> (Inr True, s2))))"

subsection \<open>\<^verbatim>\<open>search\<close>\<close>

text \<open>
  A similarity is what NumPy's float division returns: a finite value, an infinity or
  \<open>NaN\<close>. Dividing by zero does not raise in NumPy (it warns): \<open>0 / 0\<close> is \<open>NaN\<close>, and
  \<open>x / 0\<close> is an infinity with the sign of \<open>x\<close>.
\<close>

datatype npfloat = Fin real | PosInf | NegInf | NaN

definition np_div :: "real \<Rightarrow> real \<Rightarrow> npfloat" where
  "np_div x y =
     (if y = 0 then (if x = 0 then NaN else if 0 < x then PosInf else NegInf)
      else Fin (x / y))"

definition dot :: "real list \<Rightarrow> real list \<Rightarrow> real" where
  "dot xs ys = sum_list (map2 (*) xs ys)"

definition norm2 :: "real list \<Rightarrow> real" where
  "norm2 xs = sqrt (sum_list (map (\<lambda>x. x * x) xs))"

text \<open>\<^verbatim>\<open>np.dot(self.embeddings, query_embedding) / (np.linalg.norm(self.embeddings, axis=1)
  * np.linalg.norm(query_embedding))\<close>, for a matrix as \<open>np_array\<close> builds it (at least one
  row, all of one length). \<^verbatim>\<open>np.dot\<close> raises \<^verbatim>\<open>ValueError\<close> when the query's length is not
  the row length.\<close>

definition similarities :: "real list list \<Rightarrow> real list \<Rightarrow> error + npfloat list" where
  "similarities m q =
     (if length (hd m) \<noteq> length q then Inl ValueError
      else Inr (map (\<lambda>row. np_div (dot row q) (norm2 row * norm2 q)) m))"

text \<open>
  \<^verbatim>\<open>np.argsort\<close>: the indices in ascending order of the values, \<open>NaN\<close> after every number
  (NumPy's order for floats). \<open>np_rank\<close> maps a value to its place in that order. The
  default kind of sort is not stable: NumPy fixes no order among the indices of equal
  values. That order is the parameter \<open>tie\<close>: of two indices of equal value the one with
  the smaller \<open>tie xs i\<close> comes first (and the smaller index when these are equal too).
  Every arrangement of the indices that sorts the values is \<open>argsort tie xs\<close> for some
  \<open>tie\<close> (\<open>argsort_any\<close> below).
\<close>

fun np_rank :: "npfloat \<Rightarrow> nat \<times> real" where
  "np_rank NegInf = (0, 0)"
| "np_rank (Fin r) = (1, r)"
| "np_rank PosInf = (2, 0)"
| "np_rank NaN = (3, 0)"

definition argsort :: "(npfloat list \<Rightarrow> nat \<Rightarrow> nat) \<Rightarrow> npfloat list \<Rightarrow> nat list" where
  "argsort tie xs = sort_key (\<lambda>i. (np_rank (xs ! i), tie xs i)) [0..<length xs]"

text \<open>The slice \<^verbatim>\<open>xs[:k]\<close>: a negative \<open>k\<close> counts from the end.\<close>

definition slice_to :: "int \<Rightarrow> 'a list \<Rightarrow> 'a list" where
  "slice_to k xs = (if 0 \<le> k then take (nat k) xs else take (nat (int (length xs) + k)) xs)"

definition top_indices :: "(npfloat list \<Rightarrow> nat \<Rightarrow> nat) \<Rightarrow> npfloat list \<Rightarrow> int \<Rightarrow> nat list" where
  "top_indices tie sims top_k = slice_to top_k (rev (argsort tie sims))"

record search_result =
  res_content :: string
  res_metadata :: meta
  similarity :: npfloat

text \<open>The result loop: \<^verbatim>\<open>self.doc_ids[idx]\<close> raises \<^verbatim>\<open>IndexError\<close> out of range,
  \<^verbatim>\<open>self.documents[doc_id]\<close> raises \<^verbatim>\<open>KeyError\<close> for an absent key.\<close>

fun collect :: "store \<Rightarrow> npfloat list \<Rightarrow> nat list \<Rightarrow> error + search_result list" where
  "collect s sims [] = Inr []"
| "collect s sims (idx # idxs) =
     (if length (doc_ids s) \<le> idx then Inl IndexError
      else
        (case dict_get (documents s) (doc_ids s ! idx) of
           Inl e \<Rightarrow> Inl e
         | Inr doc \<Rightarrow>
             (case collect s sims idxs of
                Inl e \<Rightarrow> Inl e
              | Inr rs \<Rightarrow>
                  Inr (\<lparr>res_content = content doc, res_metadata = metadata doc,
                        similarity = sims ! idx\<rparr> # rs))))"

definition search ::
  "(npfloat list \<Rightarrow> nat \<Rightarrow> nat) \<Rightarrow> (string \<Rightarrow> error + real list) \<Rightarrow> store \<Rightarrow> string \<Rightarrow> int \<Rightarrow>
   error + search_result list" where
  "search tie emb s query top_k =
     (if documents s = [] \<or> embeddings s = None then Inr []
      else
        (case emb query of
           Inl e \<Rightarrow> Inl e
         | Inr q \<Rightarrow>
             (case similarities (the (embeddings s)) q of
                Inl e \<Rightarrow> Inl e
              | Inr sims \<Rightarrow> collect s sims (top_indices tie sims top_k))))"

subsection \<open>\<^verbatim>\<open>get_document_content\<close>\<close>

record chunk =
  index :: meta_value
  chunk_content :: string

record content_result =
  res_doc_id :: string
  name :: meta_value
  chunks :: nat
  full_content :: string
  chunks_detail :: "chunk list"

text \<open>
  \<^verbatim>\<open>chunks.sort(key=lambda x: x["index"])\<close>: Python's sort is stable; it compares integers
  with integers and strings with strings, and raises \<^verbatim>\<open>TypeError\<close> when it has to compare
  an integer with a string.
\<close>

definition sort_chunks :: "chunk list \<Rightarrow> error + chunk list" where
  "sort_chunks cs =
     (if list_all (\<lambda>c. is_MInt (index c)) cs then Inr (sort_key (\<lambda>c. the_int (index c)) cs)
      else if list_all (\<lambda>c. is_MStr (index c)) cs then Inr (sort_key (\<lambda>c. the_str (index c)) cs)
      else Inl TypeError)"

fun join :: "string \<Rightarrow> string list \<Rightarrow> string" where
  "join sep [] = []"
| "join sep [x] = x"
| "join sep (x # y # ys) = x @ sep @ join sep (y # ys)"

definition get_document_content :: "store \<Rightarrow> string \<Rightarrow> error + content_result option" where
  "get_document_content s d =
     (let members = filter (\<lambda>doc. doc_id doc = d) (vals (documents s));
          cs = map (\<lambda>doc. \<lparr>index = dict_get_default (metadata doc) ''chunk_index'' (MInt 0),
                           chunk_content = content doc\<rparr>) members
      in if cs = [] then Inr None
         else
           (case sort_chunks cs of
              Inl e \<Rightarrow> Inl e
            | Inr sorted_cs \<Rightarrow>
                Inr (Some \<lparr>res_doc_id = d,
                           name = dict_get_default (metadata (hd members)) ''source'' (MStr ''Unknown''),
                           chunks = length sorted_cs,
                           full_content = join [CHR 0x0A, CHR 0x0A] (map chunk_content sorted_cs),
                           chunks_detail = sorted_cs\<rparr>)))"

subsection \<open>Construction and \<^verbatim>\<open>_load\<close>\<close>

text \<open>
  The loop of \<^verbatim>\<open>_load\<close> over the parsed array: each entry becomes a \<^verbatim>\<open>Document\<close> and is
  stored under its id at once; an entry that is not one raises \<^verbatim>\<open>TypeError\<close> there.
\<close>

fun load_entries ::
  "(string, Document) dict \<Rightarrow> json_entry list \<Rightarrow> (error + unit) \<times> (string, Document) dict" where
  "load_entries docs [] = (Inr (), docs)"
| "load_entries docs (Malformed # es) = (Inl TypeError, docs)"
| "load_entries docs (Obj d # es) = load_entries (dict_set docs (ident d) d) es"

text \<open>\<^verbatim>\<open>for doc_data in data\<close>: what iterating the loaded value yields. An array yields its
  entries; an object yields its keys and a string its characters, strings on which
  \<^verbatim>\<open>Document(**doc_data)\<close> raises; a scalar is not iterable.\<close>

definition iterate :: "json_value \<Rightarrow> error + json_entry list" where
  "iterate v =
     (case v of
        JArray es \<Rightarrow> Inr es
      | JAtom (Members n) \<Rightarrow> Inr (replicate n Malformed)
      | JAtom Scalar \<Rightarrow> Inl TypeError)"

text \<open>\<^verbatim>\<open>_load\<close> returns nothing and raises nothing: the second component is the exception it
  caught and printed, if any (\<^verbatim>\<open>json.JSONDecodeError\<close> is a \<^verbatim>\<open>ValueError\<close>).\<close>

definition load :: "store \<Rightarrow> store \<times> error option" where
  "load s =
     (case data_file s of
        None \<Rightarrow> (s, None)
      | Some ts \<Rightarrow>
          (case json_load ts of
             None \<Rightarrow> (s, Some ValueError)
           | Some data \<Rightarrow>
               (case iterate data of
                  Inl e \<Rightarrow> (s, Some e)
                | Inr es \<Rightarrow>
                    (case load_entries (documents s) es of
                       (Inl e, docs) \<Rightarrow> (s\<lparr>documents := docs\<rparr>, Some e)
                     | (Inr _, docs) \<Rightarrow>
                         (case rebuild_index (s\<lparr>documents := docs\<rparr>) of
                            (Inl e, s1) \<Rightarrow> (s1, Some e)
                          | (Inr _, s1) \<Rightarrow> (s1, None))))))"

text \<open>\<^verbatim>\<open>__init__\<close>, for a data file with the given text.\<close>

definition init :: "file_text option \<Rightarrow> store \<times> error option" where
  "init f = load \<lparr>documents = [], embeddings = None, doc_ids = [], data_file = f\<rparr>"

subsection \<open>The properties' vocabulary\<close>

text \<open>The rows of the index matrix (none when \<^verbatim>\<open>self.embeddings\<close> is \<^verbatim>\<open>None\<close>).\<close>

definition index_rows :: "store \<Rightarrow> real list list" where
  "index_rows s = (case embeddings s of None \<Rightarrow> [] | Some m \<Rightarrow> m)"

text \<open>
  The state that \<^verbatim>\<open>_rebuild_index\<close> establishes: the keys of the dictionary are distinct (it
  is a dictionary), the id list is its key list, the matrix holds the records' embeddings
  in that order (and is \<^verbatim>\<open>None\<close> for no record), and its rows have one length.
\<close>

definition store_inv :: "store \<Rightarrow> bool" where
  "store_inv s \<longleftrightarrow>
     distinct (keys (documents s)) \<and>
     doc_ids s = keys (documents s) \<and>
     embeddings s = (if documents s = [] then None else Some (map embedding (vals (documents s)))) \<and>
     list_all (\<lambda>r. length r = length (hd (index_rows s))) (index_rows s)"

text \<open>The rows that \<^verbatim>\<open>np.array\<close> accepts.\<close>

definition same_length :: "real list list \<Rightarrow> bool" where
  "same_length rows \<longleftrightarrow> list_all (\<lambda>r. length r = length (hd rows)) rows"

text \<open>One entry of a search result, and the similarity of one row with the query.\<close>

definition mk_result :: "Document \<Rightarrow> npfloat \<Rightarrow> search_result" where
  "mk_result doc x = \<lparr>res_content = content doc, res_metadata = metadata doc, similarity = x\<rparr>"

definition cosine :: "real list \<Rightarrow> real list \<Rightarrow> npfloat" where
  "cosine row q = np_div (dot row q) (norm2 row * norm2 q)"

text \<open>The similarities of all rows with the query vector \<open>q\<close>.\<close>

definition sims_of :: "store \<Rightarrow> real list \<Rightarrow> npfloat list" where
  "sims_of s q = map (\<lambda>row. cosine row q) (index_rows s)"


text \<open>The place of an index in an arrangement \<open>p\<close> of the indices, and the order of ties
  of a stable sort.\<close>

definition place :: "nat list \<Rightarrow> nat \<Rightarrow> nat" where
  "place p i = length (takeWhile (\<lambda>j. j \<noteq> i) p)"

definition index_tie :: "npfloat list \<Rightarrow> nat \<Rightarrow> nat" where
  "index_tie xs i = i"

subsection \<open>Concrete stores\<close>

text \<open>An embedding provider that maps every text to \<open>(1, 0)\<close>; three records of one
  document, the third with the zero vector; a store of two records with the same embedding
  and a store with a zero-vector record, both as \<^verbatim>\<open>_rebuild_index\<close> leaves them.\<close>

definition unit_emb :: "string \<Rightarrow> error + real list" where
  "unit_emb t = Inr [1, 0]"

definition doc_first :: Document where
  "doc_first = \<lparr>ident = ''g_chunk_0'', doc_id = ''g'', content = ''first'', embedding = [1, 0],
     metadata = [(''source'', MStr ''f.txt''), (''chunk_index'', MInt 0)], created_at = ''t0''\<rparr>"

definition doc_second :: Document where
  "doc_second = \<lparr>ident = ''g_chunk_1'', doc_id = ''g'', content = ''second'', embedding = [1, 0],
     metadata = [(''source'', MStr ''f.txt''), (''chunk_index'', MInt 1)], created_at = ''t1''\<rparr>"

definition doc_zero :: Document where
  "doc_zero = \<lparr>ident = ''g_chunk_1'', doc_id = ''g'', content = ''zero'', embedding = [0, 0],
     metadata = [(''source'', MStr ''f.txt''), (''chunk_index'', MInt 1)], created_at = ''t1''\<rparr>"

definition empty_store :: store where
  "empty_store = \<lparr>documents = [], embeddings = None, doc_ids = [], data_file = None\<rparr>"

definition tie_store :: store where
  "tie_store = \<lparr>documents = [(''g_chunk_0'', doc_first), (''g_chunk_1'', doc_second)],
     embeddings = Some [ [1, 0], [1, 0] ], doc_ids = [''g_chunk_0'', ''g_chunk_1''],
     data_file = Some (json_dump [Obj doc_first, Obj doc_second])\<rparr>"

definition zero_store :: store where
  "zero_store = \<lparr>documents = [(''g_chunk_0'', doc_first), (''g_chunk_1'', doc_zero)],
     embeddings = Some [ [1, 0], [0, 0] ], doc_ids = [''g_chunk_0'', ''g_chunk_1''],
     data_file = Some (json_dump [Obj doc_first, Obj doc_zero])\<rparr>"

text \<open>A store of two records with orthogonal embeddings, and the store that a failed
  \<^verbatim>\<open>add\<close> leaves: one record, no index.\<close>

definition doc_up :: Document where
  "doc_up = \<lparr>ident = ''g_chunk_1'', doc_id = ''g'', content = ''second'', embedding = [0, 1],
     metadata = [(''source'', MStr ''f.txt''), (''chunk_index'', MInt 1)], created_at = ''t1''\<rparr>"

definition ortho_store :: store where
  "ortho_store = \<lparr>documents = [(''g_chunk_0'', doc_first), (''g_chunk_1'', doc_up)],
     embeddings = Some [ [1, 0], [0, 1] ], doc_ids = [''g_chunk_0'', ''g_chunk_1''],
     data_file = Some (json_dump [Obj doc_first, Obj doc_up])\<rparr>"

definition half_added_store :: store where
  "half_added_store = \<lparr>documents = [(''g_chunk_0'', doc_first)], embeddings = None,
     doc_ids = [], data_file = None\<rparr>"

text \<open>The clock of the concrete runs, and the store left by deleting the document of
  \<open>tie_store\<close>.\<close>

definition two_clock :: "nat \<Rightarrow> string" where
  "two_clock i = (if i = 0 then ''t0'' else ''t1'')"

definition emptied_store :: store where
  "emptied_store = \<lparr>documents = [], embeddings = None, doc_ids = [],
     data_file = Some (json_dump [])\<rparr>"

text \<open>An embedding provider that fails on the text \<open>bad\<close>; the record and the store
  after adding the single text \<open>new\<close> to the document of \<open>tie_store\<close> again.\<close>

definition flaky_emb :: "string \<Rightarrow> error + real list" where
  "flaky_emb t = (if t = ''bad'' then Inl EncodeError else Inr [1, 0])"

definition doc_new :: Document where
  "doc_new = \<lparr>ident = ''g_chunk_0'', doc_id = ''g'', content = ''new'', embedding = [1, 0],
     metadata = [(''source'', MStr ''f.txt''), (''chunk_index'', MInt 0)], created_at = ''t0''\<rparr>"

definition readded_store :: store where
  "readded_store = \<lparr>documents = [(''g_chunk_0'', doc_new), (''g_chunk_1'', doc_second)],
     embeddings = Some [ [1, 0], [1, 0] ], doc_ids = [''g_chunk_0'', ''g_chunk_1''],
     data_file = Some (json_dump [Obj doc_new, Obj doc_second])\<rparr>"

text \<open>A snapshot that parses, whose second entry is not a record (an object without the
  fields of \<^verbatim>\<open>Document\<close>).\<close>

definition partial_snapshot :: file_text where
  "partial_snapshot = [LBracket, Item (Obj doc_first), Comma, Item Malformed, RBracket]"

text \<open>The chunk that \<^verbatim>\<open>get_document_content\<close> builds from a record, the records of a
  document in storage order, and a store that holds the records of a document in the
  reverse of their chunk order (as loaded from a snapshot in that order).\<close>

definition chunk_of :: "Document \<Rightarrow> chunk" where
  "chunk_of doc = \<lparr>index = dict_get_default (metadata doc) ''chunk_index'' (MInt 0),
     chunk_content = content doc\<rparr>"

definition group_members :: "store \<Rightarrow> string \<Rightarrow> Document list" where
  "group_members s g = filter (\<lambda>doc. doc_id doc = g) (vals (documents s))"

definition reversed_store :: store where
  "reversed_store = \<lparr>documents = [(''g_chunk_1'', doc_second), (''g_chunk_0'', doc_first)],
     embeddings = Some [ [1, 0], [1, 0] ], doc_ids = [''g_chunk_1'', ''g_chunk_0''],
     data_file = Some (json_dump [Obj doc_second, Obj doc_first])\<rparr>"

section \<open>Properties\<close>

subsection \<open>Auxiliary facts\<close>

lemma length_randn: "length (fst (randn gauss n g)) = n"
proof (induction n arbitrary: g)
  case 0
  then show ?case by simp
next
  case (Suc n)
  obtain x g1 where a: "gauss g = (x, g1)" by (cases "gauss g")
  obtain xs g2 where b: "randn gauss n g1 = (xs, g2)" by (cases "randn gauss n g1")
  have "length xs = n" using Suc [of g1] b by simp
  then show ?case using a b by simp
qed

lemma map_of_nth_distinct:
  "distinct (map fst d) \<Longrightarrow> i < length d \<Longrightarrow> map_of d (fst (d ! i)) = Some (snd (d ! i))"
  by (metis map_of_eq_Some_iff nth_mem prod.collapse)

lemma dict_get_nth:
  "distinct (keys d) \<Longrightarrow> i < length d \<Longrightarrow> dict_get d (keys d ! i) = Inr (vals d ! i)"
  by (simp add: dict_get_def keys_def vals_def map_of_nth_distinct)

lemma collect_ok:
  assumes "distinct (keys (documents s))" "doc_ids s = keys (documents s)"
    and "\<forall>i\<in>set idxs. i < length (documents s)"
  shows "collect s sims idxs = Inr (map (\<lambda>i. mk_result (vals (documents s) ! i) (sims ! i)) idxs)"
  using assms(3)
proof (induction idxs)
  case Nil
  then show ?case by simp
next
  case (Cons i idxs)
  have "i < length (documents s)" using Cons.prems by simp
  then have "dict_get (documents s) (doc_ids s ! i) = Inr (vals (documents s) ! i)"
    using assms(1,2) by (simp add: dict_get_nth)
  moreover have "length (doc_ids s) = length (documents s)"
    using assms(2) by (simp add: keys_def)
  ultimately show ?case
    using Cons \<open>i < length (documents s)\<close> by (simp add: mk_result_def)
qed

lemma set_argsort: "set (argsort tie xs) = {0..<length xs}"
  by (simp add: argsort_def)

lemma length_argsort: "length (argsort tie xs) = length xs"
  by (simp add: argsort_def)

lemma set_slice_to: "set (slice_to k xs) \<subseteq> set xs"
  by (auto simp: slice_to_def dest: in_set_takeD)

lemma set_top_indices: "i \<in> set (top_indices tie sims k) \<Longrightarrow> i < length sims"
  using set_slice_to [of k "rev (argsort tie sims)"] by (auto simp: top_indices_def set_argsort)

lemma search_ok:
  assumes "store_inv s" "documents s \<noteq> []" "emb query = Inr q"
    and "length q = length (hd (index_rows s))"
  shows "search tie emb s query k =
           Inr (map (\<lambda>i. mk_result (vals (documents s) ! i) (map (\<lambda>row. cosine row q) (index_rows s) ! i))
                  (top_indices tie (map (\<lambda>row. cosine row q) (index_rows s)) k))"
proof -
  let ?sims = "map (\<lambda>row. cosine row q) (index_rows s)"
  have e: "embeddings s = Some (index_rows s)" and r: "index_rows s = map embedding (vals (documents s))"
    using assms(1,2) by (auto simp: store_inv_def index_rows_def)
  have sim: "similarities (the (embeddings s)) q = Inr ?sims"
    using assms(4) e by (simp add: similarities_def cosine_def)
  have len: "length ?sims = length (documents s)"
    using r by (simp add: vals_def)
  have "collect s ?sims (top_indices tie ?sims k) =
          Inr (map (\<lambda>i. mk_result (vals (documents s) ! i) (?sims ! i)) (top_indices tie ?sims k))"
    using assms(1) set_top_indices [of _ tie ?sims k] len
    by (intro collect_ok) (auto simp: store_inv_def)
  then show ?thesis
    using assms(2,3) e sim by (simp add: search_def)
qed

lemma search_index_form:
  assumes "store_inv s" "emb query = Inr q"
    and "documents s = [] \<or> length q = length (hd (index_rows s))"
  shows "search tie emb s query k =
           Inr (map (\<lambda>i. mk_result (vals (documents s) ! i) (sims_of s q ! i))
                  (top_indices tie (sims_of s q) k))"
proof (cases "documents s = []")
  case True
  then have "index_rows s = []"
    using assms(1) by (simp add: store_inv_def index_rows_def)
  then have "top_indices tie (sims_of s q) k = []"
    by (simp add: sims_of_def top_indices_def slice_to_def argsort_def)
  then show ?thesis using True by (simp add: search_def)
next
  case False
  then show ?thesis
    using assms search_ok [of s emb query q tie k] by (simp add: sims_of_def)
qed

lemma sorted_wrt_slice_to: "sorted_wrt P xs \<Longrightarrow> sorted_wrt P (slice_to k xs)"
  by (simp add: slice_to_def sorted_wrt_take)

lemma argsort_ascending:
  "sorted_wrt (\<lambda>a b. np_rank (xs ! a) \<le> np_rank (xs ! b)) (argsort tie xs)"
proof -
  have "sorted (map (\<lambda>i. (np_rank (xs ! i), tie xs i)) (argsort tie xs))"
    unfolding argsort_def by (rule sorted_sort_key)
  then have "sorted_wrt (\<lambda>a b. (np_rank (xs ! a), tie xs a) \<le> (np_rank (xs ! b), tie xs b))
      (argsort tie xs)"
    by (simp add: sorted_map)
  then show ?thesis
    by (rule sorted_wrt_mono_rel [rotated]) auto
qed

lemma top_indices_descending:
  "sorted_wrt (\<lambda>i j. np_rank (sims ! j) \<le> np_rank (sims ! i)) (top_indices tie sims k)"
proof -
  have "sorted_wrt (\<lambda>i j. np_rank (sims ! j) \<le> np_rank (sims ! i)) (rev (argsort tie sims))"
    using argsort_ascending [of sims tie] by (simp add: sorted_wrt_rev)
  then show ?thesis
    unfolding top_indices_def by (rule sorted_wrt_slice_to)
qed

lemma distinct_top_indices: "distinct (top_indices tie sims k)"
  by (simp add: top_indices_def slice_to_def argsort_def)

lemma length_top_indices:
  "0 \<le> k \<Longrightarrow> length (top_indices tie sims k) = min (nat k) (length sims)"
  by (simp add: top_indices_def slice_to_def argsort_def)

lemma top_indices_all:
  "0 \<le> k \<Longrightarrow> length sims \<le> nat k \<Longrightarrow> set (top_indices tie sims k) = {0..<length sims}"
  by (simp add: top_indices_def slice_to_def argsort_def)

lemma place_nth: "distinct p \<Longrightarrow> a < length p \<Longrightarrow> place p (p ! a) = a"
proof -
  assume d: "distinct p" and a: "a < length p"
  have "takeWhile (\<lambda>j. j \<noteq> p ! a) p = take a p"
  proof (rule takeWhile_eq_take_P_nth)
    fix i assume "i < a" and "i < length p"
    then show "p ! i \<noteq> p ! a" using d a by (simp add: nth_eq_iff_index_eq)
  next
    show "\<not> p ! a \<noteq> p ! a" by simp
  qed
  then show ?thesis using a by (simp add: place_def)
qed

lemma argsort_any:
  assumes "distinct p" and "set p = {0..<length xs}"
    and "sorted (map (\<lambda>i. np_rank (xs ! i)) p)"
  shows "argsort (\<lambda>ys. place p) xs = p"
proof -
  let ?key = "\<lambda>i. (np_rank (xs ! i), place p i)"
  have inj: "inj_on ?key (set p)"
  proof (rule inj_onI)
    fix i j assume i: "i \<in> set p" and j: "j \<in> set p" and e: "?key i = ?key j"
    obtain a where a: "a < length p" "i = p ! a" using i by (auto simp: in_set_conv_nth)
    obtain b where b: "b < length p" "j = p ! b" using j by (auto simp: in_set_conv_nth)
    have "place p i = place p j" using e by simp
    then have "a = b" using a b assms(1) by (simp add: place_nth)
    then show "i = j" using a b by simp
  qed
  have s1: "sorted (map ?key p)"
    unfolding sorted_iff_nth_mono
  proof (intro allI impI)
    fix a b assume ab: "a \<le> b" and b: "b < length (map ?key p)"
    then have "np_rank (xs ! (p ! a)) \<le> np_rank (xs ! (p ! b))"
      using assms(3) by (simp add: sorted_iff_nth_mono)
    moreover have "place p (p ! a) \<le> place p (p ! b)"
      using ab b assms(1) by (simp add: place_nth)
    ultimately show "map ?key p ! a \<le> map ?key p ! b"
      using ab b by auto
  qed
  have d1: "distinct (map ?key p)"
    using assms(1) inj by (simp add: distinct_map)
  have s2: "sorted (map ?key (sort_key ?key [0..<length xs]))"
    by (rule sorted_sort_key)
  have d2: "distinct (map ?key (sort_key ?key [0..<length xs]))"
    using inj assms(2) by (simp add: distinct_map)
  have "inj_on ?key (set (sort_key ?key [0..<length xs]) \<union> set p)"
    using inj assms(2) by simp
  then have "sort_key ?key [0..<length xs] = p"
    using s2 d2 s1 d1 by (rule map_sorted_distinct_set_unique) (simp add: assms(2))
  then show ?thesis by (simp add: argsort_def)
qed

lemma length_sims_of: "store_inv s \<Longrightarrow> length (sims_of s q) = length (documents s)"
  by (auto simp: sims_of_def store_inv_def index_rows_def vals_def)

lemma dot_zero_left: "\<forall>x\<in>set xs. x = 0 \<Longrightarrow> dot xs ys = 0"
proof (induction xs arbitrary: ys)
  case Nil
  then show ?case by (simp add: dot_def)
next
  case (Cons x xs)
  then show ?case by (cases ys) (auto simp: dot_def)
qed

lemma dot_zero_right: "\<forall>y\<in>set ys. y = 0 \<Longrightarrow> dot xs ys = 0"
proof (induction xs arbitrary: ys)
  case Nil
  then show ?case by (simp add: dot_def)
next
  case (Cons x xs)
  then show ?case by (cases ys) (auto simp: dot_def)
qed

lemma norm2_zero: "\<forall>x\<in>set xs. x = 0 \<Longrightarrow> norm2 xs = 0"
proof -
  assume "\<forall>x\<in>set xs. x = 0"
  then have "sum_list (map (\<lambda>x. x * x) xs) = 0" by (induction xs) auto
  then show ?thesis by (simp add: norm2_def)
qed

lemma cosine_zero_norm:
  "(\<forall>x\<in>set row. x = 0) \<or> (\<forall>x\<in>set q. x = 0) \<Longrightarrow> cosine row q = NaN"
  by (auto simp: cosine_def np_div_def dot_zero_left dot_zero_right norm2_zero)

lemmas store_defs = tie_store_def zero_store_def doc_first_def doc_second_def doc_zero_def
  unit_emb_def empty_store_def

lemmas search_defs = search_def similarities_def top_indices_def argsort_def slice_to_def dot_def
  index_tie_def
  norm2_def np_div_def dict_get_def

lemma str_nat_digit: "n < 10 \<Longrightarrow> str_nat n = [digit_char n]"
  by (simp add: str_nat.simps)

lemma digit_char_0: "digit_char 0 = CHR ''0''"
  by (simp add: digit_char_def)

lemma digit_char_1: "digit_char (Suc 0) = CHR ''1''"
  by (simp add: digit_char_def)

lemma tie_store_inv: "store_inv tie_store"
  by (simp add: store_inv_def store_defs keys_def vals_def index_rows_def)

lemma zero_store_inv: "store_inv zero_store"
  by (simp add: store_inv_def store_defs keys_def vals_def index_rows_def)

lemma tie_store_reachable:
  "add unit_emb two_clock None empty_store ''g'' [''first'', ''second'']
     [(''source'', MStr ''f.txt'')] = (Inr 2, tie_store)"
  by (simp add: add_def store_defs two_clock_def new_document_def chunk_id_def str_nat_digit digit_char_0 digit_char_1
      rebuild_index_def keys_def vals_def dict_get_def np_array_def save_def save_ops_def
      run_ops_def json_dump_def)


lemma ortho_store_inv: "store_inv ortho_store"
  by (simp add: store_inv_def ortho_store_def keys_def vals_def index_rows_def doc_first_def
      doc_up_def)

lemma ortho_store_search:
  "search tie unit_emb ortho_store ''query'' 5 =
     Inr [mk_result doc_first (Fin 1), mk_result doc_up (Fin 0)]"
  by (simp add: search_defs ortho_store_def unit_emb_def upt_rec mk_result_def)

lemma keys_dict_set:
  "keys (dict_set d k v) = (if k \<in> set (keys d) then keys d else keys d @ [k])"
  by (induction d) (force simp: keys_def)+

lemma distinct_dict_set: "distinct (keys d) \<Longrightarrow> distinct (keys (dict_set d k v))"
  by (simp add: keys_dict_set)

lemma map_of_dict_set: "map_of (dict_set d k v) = (map_of d)(k \<mapsto> v)"
  by (induction d) (auto simp: fun_eq_iff)

lemma keys_dict_del: "keys (dict_del d k) = remove1 k (keys d)"
  by (induction d) (auto simp: keys_def)

lemma distinct_dict_del: "distinct (keys d) \<Longrightarrow> distinct (keys (dict_del d k))"
  by (simp add: keys_dict_del)

lemma distinct_foldl_dict_del: "distinct (keys d) \<Longrightarrow> distinct (keys (foldl dict_del d ks))"
  by (induction ks arbitrary: d) (simp_all add: distinct_dict_del)

lemma lookup_embeddings_present:
  "\<forall>k\<in>set ks. k \<in> set (keys d) \<Longrightarrow>
   lookup_embeddings d ks = Inr (map (\<lambda>k. embedding (the (map_of d k))) ks)"
proof (induction ks)
  case Nil
  then show ?case by simp
next
  case (Cons k ks)
  then have "k \<in> fst ` set d" by (simp add: keys_def)
  then obtain v where "map_of d k = Some v"
    by (metis domD dom_map_of_conv_image_fst)
  then show ?case using Cons by (simp add: dict_get_def)
qed

lemma map_lookup_keys:
  assumes "distinct (keys d)"
  shows "map (\<lambda>k. f (the (map_of d k))) (keys d) = map f (vals d)"
proof (rule nth_equalityI)
  show "length (map (\<lambda>k. f (the (map_of d k))) (keys d)) = length (map f (vals d))"
    by (simp add: keys_def vals_def)
next
  fix i assume "i < length (map (\<lambda>k. f (the (map_of d k))) (keys d))"
  then have i: "i < length d" by (simp add: keys_def)
  then have "map_of d (fst (d ! i)) = Some (snd (d ! i))"
    using assms by (simp add: keys_def map_of_nth_distinct)
  then show "map (\<lambda>k. f (the (map_of d k))) (keys d) ! i = map f (vals d) ! i"
    using i by (simp add: keys_def vals_def)
qed

lemma lookup_embeddings_keys:
  "distinct (keys d) \<Longrightarrow> lookup_embeddings d (keys d) = Inr (map embedding (vals d))"
  by (simp add: lookup_embeddings_present map_lookup_keys)

lemma rebuild_index_eq:
  assumes "distinct (keys (documents s))"
  shows "rebuild_index s =
           (if documents s = [] then (Inr (), s\<lparr>embeddings := None, doc_ids := []\<rparr>)
            else if same_length (map embedding (vals (documents s)))
            then (Inr (), s\<lparr>doc_ids := keys (documents s),
                              embeddings := Some (map embedding (vals (documents s)))\<rparr>)
            else (Inl ValueError, s\<lparr>doc_ids := keys (documents s)\<rparr>))"
  using assms
  by (simp add: rebuild_index_def Let_def lookup_embeddings_keys np_array_def same_length_def)

lemma rebuild_index_inv:
  assumes "distinct (keys (documents s))" and "rebuild_index s = (Inr u, s')"
  shows "store_inv s' \<and> documents s' = documents s \<and> data_file s' = data_file s"
  using assms(2) assms(1) unfolding rebuild_index_eq [OF assms(1)]
  by (auto simp: store_inv_def index_rows_def same_length_def keys_def split: if_splits)

lemma save_fields:
  "save io s = (r, s') \<Longrightarrow>
   documents s' = documents s \<and> embeddings s' = embeddings s \<and> doc_ids s' = doc_ids s"
  by (auto simp: save_def split: option.splits if_splits)

lemma save_inv: "save io s = (r, s') \<Longrightarrow> store_inv s \<Longrightarrow> store_inv s'"
proof -
  assume a: "save io s = (r, s')" and i: "store_inv s"
  have e: "documents s' = documents s" "embeddings s' = embeddings s" "doc_ids s' = doc_ids s"
    using save_fields [OF a] by simp_all
  have "store_inv s' \<longleftrightarrow> store_inv s"
    unfolding store_inv_def index_rows_def e by (rule refl)
  then show ?thesis using i by simp
qed

lemma add_loop_distinct:
  "distinct (keys docs) \<Longrightarrow> distinct (keys (snd (add_loop emb now d md i texts docs added)))"
  by (induction texts arbitrary: i docs added) (auto simp: distinct_dict_set split: sum.splits)

lemma add_loop_count:
  "add_loop emb now d md i texts docs added = (Inr n, docs') \<Longrightarrow> n = added + length texts"
  by (induction emb now d md i texts docs added rule: add_loop.induct) (auto split: sum.splits)

lemma store_inv_aligned:
  "store_inv s \<Longrightarrow> index_rows s = map embedding (vals (documents s))"
  by (auto simp: store_inv_def index_rows_def vals_def)

lemma add_completed_inv:
  assumes "distinct (keys (documents s))" and "add emb now io s d texts md = (Inr n, s')"
  shows "store_inv s'"
proof -
  obtain r docs where l: "add_loop emb now d md 0 texts (documents s) 0 = (r, docs)"
    by (cases "add_loop emb now d md 0 texts (documents s) 0")
  have dd: "distinct (keys docs)"
    using add_loop_distinct [OF assms(1), of emb now d md 0 texts 0] l by simp
  obtain r1 s1 where rb: "rebuild_index (s\<lparr>documents := docs\<rparr>) = (r1, s1)"
    by (cases "rebuild_index (s\<lparr>documents := docs\<rparr>)")
  obtain r2 s2 where sv: "save io s1 = (r2, s2)" by (cases "save io s1")
  from assms(2) l rb sv have ok: "r1 = Inr ()" "s2 = s'"
    by (auto simp: add_def split: sum.splits)
  have "store_inv s1" using rebuild_index_inv [of "s\<lparr>documents := docs\<rparr>" "()" s1] dd rb ok by simp
  then show ?thesis using save_inv [OF sv] ok by simp
qed

lemma delete_completed_inv:
  assumes "distinct (keys (documents s))" and "delete_by_doc_id io s d = (Inr True, s')"
  shows "store_inv s'"
proof -
  let ?ks = "map fst (filter (\<lambda>(k, v). doc_id v = d) (documents s))"
  let ?s0 = "s\<lparr>documents := foldl dict_del (documents s) ?ks\<rparr>"
  have ne: "?ks \<noteq> []" using assms(2) by (auto simp: delete_by_doc_id_def Let_def split: if_splits)
  obtain r1 s1 where rb: "rebuild_index ?s0 = (r1, s1)" by (cases "rebuild_index ?s0")
  obtain r2 s2 where sv: "save io s1 = (r2, s2)" by (cases "save io s1")
  from assms(2) ne rb sv have ok: "r1 = Inr ()" "s2 = s'"
    by (auto simp: delete_by_doc_id_def Let_def split: sum.splits if_splits)
  have "distinct (keys (documents ?s0))" using assms(1) by (simp add: distinct_foldl_dict_del)
  then have "store_inv s1" using rebuild_index_inv [of ?s0 "()" s1] rb ok by simp
  then show ?thesis using save_inv [OF sv] ok by simp
qed

lemma delete_absent:
  "delete_by_doc_id io s d = (Inr False, s') \<Longrightarrow> s' = s"
  by (auto simp: delete_by_doc_id_def Let_def split: if_splits sum.splits prod.splits)

lemma store_inv_rows:
  "store_inv s \<Longrightarrow>
   doc_ids s = keys (documents s) \<and> index_rows s = map embedding (vals (documents s)) \<and>
   length (index_rows s) = length (documents s)"
  by (auto simp: store_inv_def index_rows_def vals_def)

lemma delete_tie_store: "delete_by_doc_id None tie_store ''g'' = (Inr True, emptied_store)"
  by (simp add: delete_by_doc_id_def store_defs emptied_store_def rebuild_index_def save_def
      save_ops_def run_ops_def json_dump_def vals_def)

lemma digit_char_inj: "a < 10 \<Longrightarrow> b < 10 \<Longrightarrow> digit_char a = digit_char b \<Longrightarrow> a = b"
proof -
  assume a: "a < 10" and b: "b < 10" and e: "digit_char a = digit_char b"
  have "distinct ''0123456789''" by simp
  moreover have "a < length ''0123456789''" and "b < length ''0123456789''"
    using a b by simp_all
  ultimately show "a = b"
    using e unfolding digit_char_def by (simp only: nth_eq_iff_index_eq)
qed

lemma str_nat_nonempty: "str_nat n \<noteq> []"
  by (subst str_nat.simps) simp

lemma str_nat_inj: "str_nat n = str_nat m \<Longrightarrow> n = m"
proof (induction n arbitrary: m rule: less_induct)
  case (less n)
  show ?case
  proof (cases "n < 10")
    case True
    then have n: "str_nat n = [digit_char n]" by (rule str_nat_digit)
    show ?thesis
    proof (cases "m < 10")
      case True
      then have "str_nat m = [digit_char m]" by (rule str_nat_digit)
      then show ?thesis using n less.prems True \<open>n < 10\<close> by (simp add: digit_char_inj)
    next
      case False
      then have "str_nat m = str_nat (m div 10) @ [digit_char (m mod 10)]"
        by (subst str_nat.simps) simp
      then show ?thesis using n less.prems str_nat_nonempty [of "m div 10"] by simp
    qed
  next
    case False
    then have n: "str_nat n = str_nat (n div 10) @ [digit_char (n mod 10)]"
      by (subst str_nat.simps) simp
    show ?thesis
    proof (cases "m < 10")
      case True
      then have "str_nat m = [digit_char m]" by (rule str_nat_digit)
      then show ?thesis using n less.prems str_nat_nonempty [of "n div 10"] by simp
    next
      case m: False
      then have "str_nat m = str_nat (m div 10) @ [digit_char (m mod 10)]"
        by (subst str_nat.simps) simp
      then have e: "str_nat (n div 10) = str_nat (m div 10)"
        and d: "digit_char (n mod 10) = digit_char (m mod 10)"
        using n less.prems by simp_all
      have "n div 10 < n" using False by simp
      then have "n div 10 = m div 10" using less.IH e by blast
      moreover have "n mod 10 = m mod 10" using d by (simp add: digit_char_inj)
      ultimately show ?thesis by (metis div_mult_mod_eq)
    qed
  qed
qed

lemma chunk_id_inj: "chunk_id d i = chunk_id d j \<Longrightarrow> i = j"
  by (simp add: chunk_id_def str_nat_inj)

lemma add_loop_other_keys:
  "\<forall>j<length texts. k \<noteq> chunk_id d (i + j) \<Longrightarrow>
   map_of (snd (add_loop emb now d md i texts docs added)) k = map_of docs k"
proof (induction texts arbitrary: i docs added)
  case Nil
  then show ?case by simp
next
  case (Cons t texts)
  have k0: "k \<noteq> chunk_id d i" using Cons.prems by force
  have "\<forall>j<length texts. k \<noteq> chunk_id d (Suc i + j)"
    using Cons.prems by force
  then show ?case using Cons.IH [of "Suc i"] k0
    by (simp add: map_of_dict_set split: sum.splits)
qed

lemma add_loop_lookup:
  "add_loop emb now d md i texts docs added = (Inr n, docs') \<Longrightarrow>
   \<forall>j<length texts. \<exists>v. emb (texts ! j) = Inr v \<and>
     map_of docs' (chunk_id d (i + j)) = Some (new_document d (i + j) (texts ! j) v md (now (i + j)))"
proof (induction texts arbitrary: i docs added)
  case Nil
  then show ?case by simp
next
  case (Cons t texts)
  from Cons.prems obtain v where v: "emb t = Inr v"
    by (cases "emb t") auto
  let ?docs1 = "dict_set docs (chunk_id d i) (new_document d i t v md (now i))"
  have r: "add_loop emb now d md (Suc i) texts ?docs1 (added + 1) = (Inr n, docs')"
    using Cons.prems v by simp
  have ih: "\<forall>j<length texts. \<exists>v. emb (texts ! j) = Inr v \<and>
     map_of docs' (chunk_id d (Suc i + j)) =
       Some (new_document d (Suc i + j) (texts ! j) v md (now (Suc i + j)))"
    using Cons.IH [OF r] .
  have "\<forall>j<length texts. chunk_id d i \<noteq> chunk_id d (Suc i + j)"
    using chunk_id_inj [of d i] by fastforce
  then have "map_of (snd (add_loop emb now d md (Suc i) texts ?docs1 (added + 1))) (chunk_id d i) =
      map_of ?docs1 (chunk_id d i)"
    by (rule add_loop_other_keys)
  then have z: "map_of docs' (chunk_id d i) = Some (new_document d i t v md (now i))"
    using r by (simp add: map_of_dict_set)
  show ?case
  proof (intro allI impI)
    fix j assume j: "j < length (t # texts)"
    show "\<exists>v. emb ((t # texts) ! j) = Inr v \<and>
       map_of docs' (chunk_id d (i + j)) =
         Some (new_document d (i + j) ((t # texts) ! j) v md (now (i + j)))"
    proof (cases j)
      case 0
      then show ?thesis using v z by simp
    next
      case (Suc j')
      then show ?thesis using ih j by simp
    qed
  qed
qed

lemma add_loop_append:
  "add_loop emb now d md i (pre @ rest) docs added =
     (case add_loop emb now d md i pre docs added of
        (Inl e, docs1) \<Rightarrow> (Inl e, docs1)
      | (Inr n, docs1) \<Rightarrow> add_loop emb now d md (i + length pre) rest docs1 n)"
  by (induction pre arbitrary: i docs added) (auto split: sum.splits prod.splits)

lemma add_loop_success:
  "\<forall>t\<in>set texts. \<exists>v. emb t = Inr v \<Longrightarrow>
   \<exists>docs'. add_loop emb now d md i texts docs added = (Inr (added + length texts), docs')"
proof (induction texts arbitrary: i docs added)
  case Nil
  then show ?case by simp
next
  case (Cons t texts)
  then obtain v where v: "emb t = Inr v" by auto
  have "\<forall>t\<in>set texts. \<exists>v. emb t = Inr v" using Cons.prems by simp
  from Cons.IH [OF this, of "Suc i" "dict_set docs (chunk_id d i) (new_document d i t v md (now i))"
      "added + 1"]
  show ?case using v by simp
qed

lemma set_vals_dict_set: "set (vals (dict_set d k v)) \<subseteq> insert v (set (vals d))"
  by (induction d) (force simp: vals_def split: if_splits)+

lemma add_loop_dim:
  assumes "\<forall>doc\<in>set (vals docs). length (embedding doc) = D"
    and "\<forall>t\<in>set texts. \<forall>v. emb t = Inr v \<longrightarrow> length v = D"
  shows "\<forall>doc\<in>set (vals (snd (add_loop emb now d md i texts docs added))).
           length (embedding doc) = D"
  using assms
proof (induction texts arbitrary: i docs added)
  case Nil
  then show ?case by simp
next
  case (Cons t texts)
  show ?case
  proof (cases "emb t")
    case (Inl e)
    then show ?thesis using Cons.prems by simp
  next
    case (Inr v)
    let ?docs1 = "dict_set docs (chunk_id d i) (new_document d i t v md (now i))"
    have "length v = D" using Cons.prems(2) Inr by simp
    then have "\<forall>doc\<in>set (vals ?docs1). length (embedding doc) = D"
      using Cons.prems(1) set_vals_dict_set [of docs "chunk_id d i" "new_document d i t v md (now i)"]
      by (auto simp: new_document_def)
    moreover have "\<forall>t\<in>set texts. \<forall>v. emb t = Inr v \<longrightarrow> length v = D"
      using Cons.prems(2) by simp
    ultimately show ?thesis using Cons.IH [of ?docs1 "Suc i" "added + 1"] Inr by simp
  qed
qed

lemma same_length_dim: "\<forall>r\<in>set rows. length r = D \<Longrightarrow> same_length rows"
  by (cases rows) (auto simp: same_length_def list_all_iff)

lemma keys_add_loop:
  "add_loop emb now d md i texts docs added = (Inr n, docs') \<Longrightarrow>
   set (keys docs') = set (keys docs) \<union> {chunk_id d (i + j) | j. j < length texts}"
proof (induction texts arbitrary: i docs added)
  case Nil
  then show ?case by simp
next
  case (Cons t texts)
  from Cons.prems obtain v where v: "emb t = Inr v" by (cases "emb t") auto
  let ?docs1 = "dict_set docs (chunk_id d i) (new_document d i t v md (now i))"
  have r: "add_loop emb now d md (Suc i) texts ?docs1 (added + 1) = (Inr n, docs')"
    using Cons.prems v by simp
  have "set (keys docs') = set (keys ?docs1) \<union> {chunk_id d (Suc i + j) | j. j < length texts}"
    using Cons.IH [OF r] .
  moreover have "set (keys ?docs1) = insert (chunk_id d i) (set (keys docs))"
    by (auto simp: keys_dict_set)
  moreover have "{chunk_id d (i + j) | j. j < length (t # texts)} =
      insert (chunk_id d i) {chunk_id d (Suc i + j) | j. j < length texts}"
  proof -
    have "\<And>j. j < Suc (length texts) \<longleftrightarrow> j = 0 \<or> (\<exists>j'. j = Suc j' \<and> j' < length texts)"
      by (metis Suc_less_eq less_Suc_eq_0_disj)
    then show ?thesis by (auto; metis add_Suc_right add_0_right add_Suc)
  qed
  ultimately show ?case by auto
qed

lemma foldl_append_ops: "foldl apply_op (Some xs) (map Append ts) = Some (xs @ ts)"
  by (induction ts arbitrary: xs) simp_all

lemma run_ops_write: "run_ops f (Truncate # map Append ts) = Some ts"
  by (simp add: run_ops_def foldl_append_ops)

lemma run_ops_prefix:
  "0 < n \<Longrightarrow> run_ops f (take n (Truncate # map Append ts)) = Some (take (n - 1) ts)"
proof -
  assume "0 < n"
  then obtain m where n: "n = Suc m" by (cases n) auto
  have "foldl apply_op (Some []) (map Append (take m ts)) = Some ([] @ take m ts)"
    by (rule foldl_append_ops)
  then show ?thesis using n by (simp add: run_ops_def take_map)
qed

lemma save_completes:
  "save None s = (Inr (), s\<lparr>data_file := Some (json_dump (map Obj (vals (documents s))))\<rparr>)"
  by (simp add: save_def save_ops_def run_ops_write)

lemma add_success:
  assumes "distinct (keys (documents s))"
    and "\<forall>doc\<in>set (vals (documents s)). length (embedding doc) = D"
    and "\<forall>x\<in>set texts. \<exists>v. emb x = Inr v \<and> length v = D"
  shows "\<exists>docs'. add_loop emb now d md 0 texts (documents s) 0 = (Inr (length texts), docs') \<and>
           add emb now None s d texts md =
             (Inr (length texts),
              s\<lparr>documents := docs', doc_ids := keys docs',
                embeddings := (if docs' = [] then None else Some (map embedding (vals docs'))),
                data_file := Some (json_dump (map Obj (vals docs')))\<rparr>)"
proof -
  have "\<forall>t\<in>set texts. \<exists>v. emb t = Inr v" using assms(3) by blast
  then obtain docs' where l: "add_loop emb now d md 0 texts (documents s) 0 = (Inr (length texts), docs')"
    using add_loop_success [of texts emb now d md 0 "documents s" 0] by auto
  have dd: "distinct (keys docs')"
    using add_loop_distinct [OF assms(1), of emb now d md 0 texts 0] l by simp
  have "\<forall>t\<in>set texts. \<forall>v. emb t = Inr v \<longrightarrow> length v = D" using assms(3) by auto
  then have "\<forall>doc\<in>set (vals docs'). length (embedding doc) = D"
    using add_loop_dim [OF assms(2), of texts emb now d md 0 0] l by simp
  then have sl: "same_length (map embedding (vals docs'))"
    by (intro same_length_dim [of _ D]) auto
  let ?s0 = "s\<lparr>documents := docs'\<rparr>"
  have rb: "rebuild_index ?s0 =
      (Inr (), ?s0\<lparr>doc_ids := keys docs',
          embeddings := (if docs' = [] then None else Some (map embedding (vals docs')))\<rparr>)"
    using rebuild_index_eq [of ?s0] dd sl by (auto simp: keys_def)
  show ?thesis
    using l rb by (auto simp: add_def save_completes)
qed

lemma add_failure:
  assumes "\<forall>x\<in>set pre. \<exists>v. emb x = Inr v" and "emb t = Inl e"
  shows "\<exists>docs'. add_loop emb now d md 0 pre (documents s) 0 = (Inr (length pre), docs') \<and>
           add emb now io s d (pre @ t # post) md = (Inl e, s\<lparr>documents := docs'\<rparr>)"
proof -
  obtain docs' where l: "add_loop emb now d md 0 pre (documents s) 0 = (Inr (length pre), docs')"
    using add_loop_success [OF assms(1), of now d md 0 "documents s" 0] by auto
  then have "add_loop emb now d md 0 (pre @ t # post) (documents s) 0 = (Inl e, docs')"
    using assms(2) by (simp add: add_loop_append)
  then show ?thesis using l by (simp add: add_def)
qed

lemmas add_defs = add_def new_document_def chunk_id_def str_nat_digit digit_char_0 digit_char_1
  rebuild_index_def keys_def vals_def dict_get_def np_array_def save_def save_ops_def
  run_ops_def json_dump_def two_clock_def

lemma readd_tie_store:
  "add unit_emb two_clock None tie_store ''g'' [''new''] [(''source'', MStr ''f.txt'')] =
     (Inr 1, readded_store)"
  by (simp add: add_defs store_defs readded_store_def doc_new_def)

lemma load_items_dump: "es \<noteq> [] \<Longrightarrow> load_items (dump_items es @ [RBracket]) = Some es"
  by (induction es rule: dump_items.induct) simp_all

lemma json_load_dump: "json_load (json_dump es) = Some (JArray es)"
proof (cases es)
  case Nil
  then show ?thesis by (simp add: json_dump_def)
next
  case (Cons e es')
  then have "dump_items es @ [RBracket] \<noteq> [RBracket]" by (cases es') simp_all
  then show ?thesis using Cons load_items_dump [of es] by (simp add: json_dump_def)
qed

lemma load_items_unclosed: "RBracket \<notin> set ts \<Longrightarrow> load_items ts = None"
  by (induction ts rule: load_items.induct) simp_all

lemma dump_items_open: "RBracket \<notin> set (dump_items es)"
  by (induction es rule: dump_items.induct) simp_all

lemma json_load_prefix:
  assumes "m < length (json_dump es)"
  shows "json_load (take m (json_dump es)) = None"
proof (cases m)
  case 0
  then show ?thesis by simp
next
  case (Suc m')
  then have m': "m' \<le> length (dump_items es)" using assms by (simp add: json_dump_def)
  then have t: "take m' (dump_items es @ [RBracket]) = take m' (dump_items es)" by simp
  have "RBracket \<notin> set (take m' (dump_items es))"
    using dump_items_open [of es] by (meson in_set_takeD)
  then have "load_items (take m' (dump_items es)) = None"
    and "take m' (dump_items es) \<noteq> [RBracket]"
    by (simp_all add: load_items_unclosed) auto
  then show ?thesis using Suc t by (simp add: json_dump_def)
qed

lemma length_save_ops: "length (save_ops s) = Suc (length (json_dump (map Obj (vals (documents s)))))"
  by (simp add: save_ops_def)

lemma init_missing:
  "init None = (\<lparr>documents = [], embeddings = None, doc_ids = [], data_file = None\<rparr>, None)"
  by (simp add: init_def load_def)

lemma init_unparsable:
  "json_load ts = None \<Longrightarrow>
   init (Some ts) =
     (\<lparr>documents = [], embeddings = None, doc_ids = [], data_file = Some ts\<rparr>, Some ValueError)"
  by (simp add: init_def load_def)

lemma init_empty_object:
  "init (Some [Atom (Members 0)]) =
     (\<lparr>documents = [], embeddings = None, doc_ids = [], data_file = Some [Atom (Members 0)]\<rparr>,
      None)"
  by (simp add: init_def load_def iterate_def rebuild_index_def)

lemma get_document_content_eq:
  "get_document_content s g =
     (if group_members s g = [] then Inr None
      else case sort_chunks (map chunk_of (group_members s g)) of
             Inl e \<Rightarrow> Inl e
           | Inr cs \<Rightarrow>
               Inr (Some \<lparr>res_doc_id = g,
                          name = dict_get_default (metadata (hd (group_members s g))) ''source''
                                   (MStr ''Unknown''),
                          chunks = length cs,
                          full_content = join [CHR 0x0A, CHR 0x0A] (map chunk_content cs),
                          chunks_detail = cs\<rparr>))"
  by (simp add: get_document_content_def Let_def group_members_def chunk_of_def [abs_def]
      split: sum.splits)

lemma sort_chunks_int:
  "\<forall>c\<in>set cs. is_MInt (index c) \<Longrightarrow>
   sort_chunks cs = Inr (sort_key (\<lambda>c. the_int (index c)) cs)"
  by (simp add: sort_chunks_def list_all_iff)

lemma new_document_chunk_index: "index (chunk_of (new_document d i text v md t)) = MInt (int i)"
  by (simp add: chunk_of_def new_document_def dict_get_default_def map_of_dict_set)

subsection \<open>The claims\<close>

text \<open>
  Claim C9. The degraded-fallback embedding is deterministic: it seeds the generator from
  the digest of the text alone (modulo \<open>2 ^ 32\<close>) and draws 384 values, so two calls with
  the same text return the same vector whatever the generator's state was before each of
  them (\<open>g\<close>, \<open>g'\<close>: the states left by any earlier calls).
\<close>

theorem fallback_embedding_deterministic:
  "fst (get_embedding None md5 seed_rng gauss text g) =
     fst (get_embedding None md5 seed_rng gauss text g') \<and>
   (\<exists>v. fst (get_embedding None md5 seed_rng gauss text g) = Inr v \<and> length v = 384 \<and>
        v = fst (randn gauss 384 (seed_rng (md5 text mod 2 ^ 32))))"
  using length_randn [of gauss 384 "seed_rng (md5 text mod 2 ^ 32)"]
  by (simp add: get_embedding_def Let_def split: prod.splits)

text \<open>
  Claim C1 says that a zero-norm pairing is reported with similarity exactly \<open>0\<close>. The code
  divides without a guard: for a record whose embedding is the zero vector the similarity
  is \<open>0 / 0\<close>, that is \<open>NaN\<close>, and \<open>NaN\<close> sorts after every number, so the record comes
  first in the reversed order.
\<close>

theorem search_zero_norm_counterexample:
  "search index_tie unit_emb zero_store ''query'' 2 =
     Inr [\<lparr>res_content = ''zero'', res_metadata = [(''source'', MStr ''f.txt''), (''chunk_index'', MInt 1)],
            similarity = NaN\<rparr>,
          \<lparr>res_content = ''first'', res_metadata = [(''source'', MStr ''f.txt''), (''chunk_index'', MInt 0)],
            similarity = Fin 1\<rparr>] \<and> NaN \<noteq> Fin 0"
  by (simp add: search_defs store_defs upt_rec)

text \<open>
  Claim C1, as amended. For a store as \<^verbatim>\<open>_rebuild_index\<close> leaves it and a query whose
  embedding has the rows' length, \<^verbatim>\<open>search\<close> does not raise: it returns the entries of the
  ranked indices, each with the similarity of its row; and for every record whose embedding
  is the zero vector, and for every record when the query's embedding is, that similarity
  is \<open>NaN\<close> (not \<open>0\<close>).
\<close>

theorem search_zero_norm_nan:
  assumes "store_inv s" and "emb query = Inr q"
    and "documents s = [] \<or> length q = length (hd (index_rows s))"
  shows "search tie emb s query k =
           Inr (map (\<lambda>i. mk_result (vals (documents s) ! i) (sims_of s q ! i))
                  (top_indices tie (sims_of s q) k)) \<and>
         (\<forall>i<length (documents s).
            (\<forall>x\<in>set (embedding (vals (documents s) ! i)). x = 0) \<or> (\<forall>x\<in>set q. x = 0) \<longrightarrow>
            sims_of s q ! i = NaN)"
proof
  show "search tie emb s query k =
           Inr (map (\<lambda>i. mk_result (vals (documents s) ! i) (sims_of s q ! i))
                  (top_indices tie (sims_of s q) k))"
    using assms by (rule search_index_form)
next
  show "\<forall>i<length (documents s).
            (\<forall>x\<in>set (embedding (vals (documents s) ! i)). x = 0) \<or> (\<forall>x\<in>set q. x = 0) \<longrightarrow>
            sims_of s q ! i = NaN"
  proof (intro allI impI)
    fix i
    assume i: "i < length (documents s)"
      and z: "(\<forall>x\<in>set (embedding (vals (documents s) ! i)). x = 0) \<or> (\<forall>x\<in>set q. x = 0)"
    have rows: "index_rows s = map embedding (vals (documents s))"
      using assms(1) by (auto simp: store_inv_def index_rows_def vals_def)
    have "sims_of s q ! i = cosine (embedding (vals (documents s) ! i)) q"
      using i rows by (simp add: sims_of_def vals_def)
    then show "sims_of s q ! i = NaN"
      using z by (simp add: cosine_zero_norm)
  qed
qed

theorem search_zero_norm_nan_witness:
  "store_inv zero_store \<and> unit_emb ''query'' = Inr [1, 0] \<and>
   length [1, 0 :: real] = length (hd (index_rows zero_store)) \<and>
   search index_tie unit_emb zero_store ''query'' 2 =
     Inr [mk_result doc_zero NaN, mk_result doc_first (Fin 1)] \<and>
   embedding (vals (documents zero_store) ! 1) = [0, 0] \<and>
   sims_of zero_store [1, 0] ! 1 = NaN"
proof -
  have e: "unit_emb ''query'' = Inr [1, 0]" by (simp add: unit_emb_def)
  have l: "documents zero_store = [] \<or> length [1, 0 :: real] = length (hd (index_rows zero_store))"
    by (simp add: zero_store_def index_rows_def)
  have z: "embedding (vals (documents zero_store) ! 1) = [0, 0]"
    by (simp add: zero_store_def vals_def doc_zero_def)
  have n: "sims_of zero_store [1, 0] ! 1 = NaN"
    using search_zero_norm_nan [of zero_store unit_emb "''query''" "[1, 0]" index_tie 2]
      zero_store_inv e l z
    by (simp add: zero_store_def)
  have "search index_tie unit_emb zero_store ''query'' 2 =
     Inr [mk_result doc_zero NaN, mk_result doc_first (Fin 1)]"
    by (simp add: search_defs store_defs upt_rec mk_result_def)
  then show ?thesis using zero_store_inv e l z n by (simp add: zero_store_def index_rows_def)
qed




text \<open>
  Claim C7 is stated for every integer \<open>k\<close>, with a result of length \<open>min k n\<close>. The code
  slices with \<^verbatim>\<open>[:top_k]\<close>, and a negative bound counts from the end: with two records and
  \<open>k = - 1\<close> the result has one entry.
\<close>

theorem search_negative_k_counterexample:
  "search index_tie unit_emb ortho_store ''query'' (- 1) =
     Inr [\<lparr>res_content = ''first'', res_metadata = [(''source'', MStr ''f.txt''), (''chunk_index'', MInt 0)],
            similarity = Fin 1\<rparr>] \<and>
   length (documents ortho_store) = 2 \<and> min (- 1) (int (length (documents ortho_store))) = - 1"
  by (simp add: search_defs ortho_store_def unit_emb_def doc_first_def doc_up_def upt_rec)

text \<open>
  Claim C7, as amended (\<open>k\<close> not negative). On a store with no record, \<^verbatim>\<open>search\<close> returns
  the empty sequence without error, for every query and every \<open>k\<close>, whatever the embedding
  call would do. On a store as \<^verbatim>\<open>_rebuild_index\<close> leaves it, for a query whose embedding
  has the rows' length and \<open>0 \<le> k\<close>, \<^verbatim>\<open>search\<close> returns without error the entries of
  \<open>min k n\<close> distinct records, none with a smaller similarity (in NumPy's order) than a
  later one, and of all \<open>n\<close> records when \<open>n \<le> k\<close>.
\<close>

theorem search_clamps:
  "(documents s = [] \<longrightarrow> search tie emb s query k = Inr []) \<and>
   (store_inv s \<and> emb query = Inr q \<and> length q = length (hd (index_rows s)) \<and> 0 \<le> k \<longrightarrow>
      (\<exists>idxs. search tie emb s query k =
                 Inr (map (\<lambda>i. mk_result (vals (documents s) ! i) (sims_of s q ! i)) idxs) \<and>
              length idxs = min (nat k) (length (documents s)) \<and>
              distinct idxs \<and> set idxs \<subseteq> {0..<length (documents s)} \<and>
              sorted_wrt (\<lambda>i j. np_rank (sims_of s q ! j) \<le> np_rank (sims_of s q ! i)) idxs \<and>
              (length (documents s) \<le> nat k \<longrightarrow> set idxs = {0..<length (documents s)})))"
proof (intro conjI impI)
  assume "documents s = []"
  then show "search tie emb s query k = Inr []" by (simp add: search_def)
next
  assume a: "store_inv s \<and> emb query = Inr q \<and> length q = length (hd (index_rows s)) \<and> 0 \<le> k"
  let ?idxs = "top_indices tie (sims_of s q) k"
  have len: "length (sims_of s q) = length (documents s)"
    using a by (simp add: length_sims_of)
  have "search tie emb s query k =
          Inr (map (\<lambda>i. mk_result (vals (documents s) ! i) (sims_of s q ! i)) ?idxs)"
    using search_index_form [of s emb query q tie k] a by simp
  moreover have "length ?idxs = min (nat k) (length (documents s))"
    using a len by (simp add: length_top_indices)
  moreover have "distinct ?idxs" by (rule distinct_top_indices)
  moreover have "set ?idxs \<subseteq> {0..<length (documents s)}"
    using set_top_indices [of _ tie "sims_of s q" k] len by auto
  moreover have "sorted_wrt (\<lambda>i j. np_rank (sims_of s q ! j) \<le> np_rank (sims_of s q ! i)) ?idxs"
    by (rule top_indices_descending)
  moreover have "length (documents s) \<le> nat k \<longrightarrow> set ?idxs = {0..<length (documents s)}"
    using a len top_indices_all [of k "sims_of s q" tie] by simp
  ultimately show "\<exists>idxs. search tie emb s query k =
                 Inr (map (\<lambda>i. mk_result (vals (documents s) ! i) (sims_of s q ! i)) idxs) \<and>
              length idxs = min (nat k) (length (documents s)) \<and>
              distinct idxs \<and> set idxs \<subseteq> {0..<length (documents s)} \<and>
              sorted_wrt (\<lambda>i j. np_rank (sims_of s q ! j) \<le> np_rank (sims_of s q ! i)) idxs \<and>
              (length (documents s) \<le> nat k \<longrightarrow> set idxs = {0..<length (documents s)})"
    by blast
qed

theorem search_clamps_witness:
  "documents empty_store = [] \<and> search index_tie unit_emb empty_store ''query'' 3 = Inr [] \<and>
   store_inv ortho_store \<and> unit_emb ''query'' = Inr [1, 0] \<and>
   length [1, 0 :: real] = length (hd (index_rows ortho_store)) \<and> (0 :: int) \<le> 5 \<and>
   length (documents ortho_store) \<le> nat 5 \<and>
   search index_tie unit_emb ortho_store ''query'' 5 =
     Inr [mk_result doc_first (Fin 1), mk_result doc_up (Fin 0)]"
proof -
  have e: "unit_emb ''query'' = Inr [1, 0]" by (simp add: unit_emb_def)
  have l: "length [1, 0 :: real] = length (hd (index_rows ortho_store))"
    by (simp add: ortho_store_def index_rows_def)
  have d: "documents empty_store = []" by (simp add: empty_store_def)
  have n: "length (documents ortho_store) = 2" by (simp add: ortho_store_def)
  have z: "(0 :: int) \<le> 5" by simp
  have k: "length (documents ortho_store) \<le> nat 5" using n by simp
  have se: "search index_tie unit_emb empty_store ''query'' 3 = Inr []"
    using conjunct1 [OF search_clamps [of empty_store index_tie unit_emb "''query''" 3]] d
    by (rule mp)
  have p: "store_inv ortho_store \<and> unit_emb ''query'' = Inr [1, 0] \<and>
      length [1, 0 :: real] = length (hd (index_rows ortho_store)) \<and> (0 :: int) \<le> 5"
    using ortho_store_inv e l by simp
  have "\<exists>idxs. search index_tie unit_emb ortho_store ''query'' 5 =
          Inr (map (\<lambda>i. mk_result (vals (documents ortho_store) ! i) (sims_of ortho_store [1, 0] ! i)) idxs) \<and>
        length idxs = min (nat 5) (length (documents ortho_store)) \<and>
        distinct idxs \<and> set idxs \<subseteq> {0..<length (documents ortho_store)} \<and>
        sorted_wrt (\<lambda>i j. np_rank (sims_of ortho_store [1, 0] ! j) \<le> np_rank (sims_of ortho_store [1, 0] ! i)) idxs \<and>
        (length (documents ortho_store) \<le> nat 5 \<longrightarrow> set idxs = {0..<length (documents ortho_store)})"
    using conjunct2 [OF search_clamps [of ortho_store index_tie unit_emb "''query''" 5 "[1, 0]"]] p
    by (rule mp)
  then obtain idxs where
    r: "search index_tie unit_emb ortho_store ''query'' 5 =
          Inr (map (\<lambda>i. mk_result (vals (documents ortho_store) ! i) (sims_of ortho_store [1, 0] ! i)) idxs)"
    by blast
  have st: "search index_tie unit_emb ortho_store ''query'' 5 =
     Inr [mk_result doc_first (Fin 1), mk_result doc_up (Fin 0)]"
    using r ortho_store_search [of index_tie] by simp
  show ?thesis
    by (intro conjI) (rule d, rule se, rule ortho_store_inv, rule e, rule l, rule z, rule k, rule st)
qed

text \<open>
  Claim C6 says that the id list and the rows agree after every completed \<^verbatim>\<open>add\<close> or
  delete. A \<^verbatim>\<open>delete_by_doc_id\<close> that finds no record returns \<^verbatim>\<open>False\<close> without rebuilding
  the index: after an \<^verbatim>\<open>add\<close> that failed on its second text (one record stored, no index
  built), deleting an absent document completes and leaves one record against no row.
\<close>

theorem delete_absent_misaligned_counterexample:
  "add flaky_emb two_clock None empty_store ''g'' [''first'', ''bad''] [(''source'', MStr ''f.txt'')] =
     (Inl EncodeError, half_added_store) \<and>
   delete_by_doc_id None half_added_store ''h'' = (Inr False, half_added_store) \<and>
   length (documents half_added_store) = 1 \<and> length (index_rows half_added_store) = 0 \<and>
   keys (documents half_added_store) = [''g_chunk_0''] \<and> doc_ids half_added_store = []"
  by (simp add: add_defs store_defs flaky_emb_def half_added_store_def delete_by_doc_id_def
      index_rows_def)

text \<open>
  Claim C6, as amended. After every \<^verbatim>\<open>add\<close> that completes, and after every
  \<^verbatim>\<open>delete_by_doc_id\<close> that completes having removed a record, the id list of the index is
  the key list of the record dictionary, the rows of the matrix are the records' embeddings
  in that order, and there are as many rows as records, whatever state the call started
  from (\<open>distinct\<close>: the dictionary has no key twice). A deletion that finds no record
  returns \<^verbatim>\<open>False\<close> and leaves the store as it was.
\<close>

theorem index_aligned_after_mutation:
  assumes "distinct (keys (documents s))"
  shows "(add emb now io s d texts md = (Inr n, s') \<longrightarrow>
            doc_ids s' = keys (documents s') \<and>
            index_rows s' = map embedding (vals (documents s')) \<and>
            length (index_rows s') = length (documents s')) \<and>
         (delete_by_doc_id io s d = (Inr True, s'') \<longrightarrow>
            doc_ids s'' = keys (documents s'') \<and>
            index_rows s'' = map embedding (vals (documents s'')) \<and>
            length (index_rows s'') = length (documents s'')) \<and>
         (delete_by_doc_id io s d = (Inr False, s'') \<longrightarrow> s'' = s)"
  using add_completed_inv [OF assms, of emb now io d texts md n s']
    delete_completed_inv [OF assms, of io d s''] delete_absent [of io s d s'']
    store_inv_rows [of s'] store_inv_rows [of s'']
  by blast

theorem index_aligned_after_mutation_witness:
  "distinct (keys (documents empty_store)) \<and>
   add unit_emb two_clock None empty_store ''g'' [''first'', ''second'']
     [(''source'', MStr ''f.txt'')] = (Inr 2, tie_store) \<and>
   doc_ids tie_store = keys (documents tie_store) \<and>
   index_rows tie_store = map embedding (vals (documents tie_store)) \<and>
   length (index_rows tie_store) = length (documents tie_store) \<and>
   distinct (keys (documents tie_store)) \<and>
   delete_by_doc_id None tie_store ''g'' = (Inr True, emptied_store) \<and>
   doc_ids emptied_store = keys (documents emptied_store) \<and>
   index_rows emptied_store = map embedding (vals (documents emptied_store)) \<and>
   length (index_rows emptied_store) = length (documents emptied_store)"
proof -
  have d0: "distinct (keys (documents empty_store))" by (simp add: empty_store_def keys_def)
  have d1: "distinct (keys (documents tie_store))" by (simp add: tie_store_def keys_def)
  have a: "doc_ids tie_store = keys (documents tie_store) \<and>
      index_rows tie_store = map embedding (vals (documents tie_store)) \<and>
      length (index_rows tie_store) = length (documents tie_store)"
    using conjunct1 [OF index_aligned_after_mutation [OF d0, of unit_emb two_clock None "''g''"
          "[''first'', ''second'']" "[(''source'', MStr ''f.txt'')]" 2 tie_store]]
      tie_store_reachable by (rule mp)
  have b: "doc_ids emptied_store = keys (documents emptied_store) \<and>
      index_rows emptied_store = map embedding (vals (documents emptied_store)) \<and>
      length (index_rows emptied_store) = length (documents emptied_store)"
    using conjunct1 [OF conjunct2 [OF index_aligned_after_mutation [OF d1, of _ _ None "''g''" _ _ _ _
          emptied_store]]] delete_tie_store by (rule mp)
  show ?thesis using d0 d1 a b tie_store_reachable delete_tie_store by blast
qed

text \<open>
  Claim C4 says that no record of a batch is committed when an embedding fails. The loop of
  \<^verbatim>\<open>add\<close> stores each record as soon as it is built: when the second text fails, the
  record of the first is already in \<^verbatim>\<open>self.documents\<close>.
\<close>

theorem add_partial_batch_counterexample:
  "add flaky_emb two_clock None empty_store ''g'' [''first'', ''bad''] [(''source'', MStr ''f.txt'')] =
     (Inl EncodeError, empty_store\<lparr>documents := [(''g_chunk_0'', doc_first)]\<rparr>) \<and>
   documents empty_store = []"
  by (simp add: add_defs store_defs flaky_emb_def)

text \<open>
  Claim C4, as amended. If the embedding call fails for a text of the batch (\<open>t\<close>, the
  first one that fails, after the texts \<open>pre\<close>), the whole call fails with that error; the
  index (matrix and id list) and the snapshot file are as before the call, and the records
  of the texts before the failing one are in the record set, each under its id. If no
  embedding fails, the embeddings have the dimension of the stored ones and the snapshot
  write succeeds, \<^verbatim>\<open>add\<close> returns the number of texts, having stored one record for each.
\<close>

theorem add_all_or_error:
  "((\<forall>x\<in>set pre. \<exists>v. emb x = Inr v) \<and> emb t = Inl e \<longrightarrow>
      (\<exists>s'. add emb now io s d (pre @ t # post) md = (Inl e, s') \<and>
         embeddings s' = embeddings s \<and> doc_ids s' = doc_ids s \<and> data_file s' = data_file s \<and>
         (\<forall>j<length pre. \<exists>v. emb (pre ! j) = Inr v \<and>
            map_of (documents s') (chunk_id d j) = Some (new_document d j (pre ! j) v md (now j))))) \<and>
   (distinct (keys (documents s)) \<and>
    (\<forall>doc\<in>set (vals (documents s)). length (embedding doc) = D) \<and>
    (\<forall>x\<in>set texts. \<exists>v. emb x = Inr v \<and> length v = D) \<longrightarrow>
      (\<exists>s'. add emb now None s d texts md = (Inr (length texts), s') \<and>
         (\<forall>j<length texts. \<exists>v. emb (texts ! j) = Inr v \<and>
            map_of (documents s') (chunk_id d j) = Some (new_document d j (texts ! j) v md (now j)))))"
proof (intro conjI impI)
  assume a: "(\<forall>x\<in>set pre. \<exists>v. emb x = Inr v) \<and> emb t = Inl e"
  then obtain docs' where l: "add_loop emb now d md 0 pre (documents s) 0 = (Inr (length pre), docs')"
    and r: "add emb now io s d (pre @ t # post) md = (Inl e, s\<lparr>documents := docs'\<rparr>)"
    using add_failure [of pre emb t e now d md s io post] by blast
  have "\<forall>j<length pre. \<exists>v. emb (pre ! j) = Inr v \<and>
      map_of docs' (chunk_id d (0 + j)) = Some (new_document d (0 + j) (pre ! j) v md (now (0 + j)))"
    using l by (rule add_loop_lookup)
  then show "\<exists>s'. add emb now io s d (pre @ t # post) md = (Inl e, s') \<and>
         embeddings s' = embeddings s \<and> doc_ids s' = doc_ids s \<and> data_file s' = data_file s \<and>
         (\<forall>j<length pre. \<exists>v. emb (pre ! j) = Inr v \<and>
            map_of (documents s') (chunk_id d j) = Some (new_document d j (pre ! j) v md (now j)))"
    using r by simp
next
  assume a: "distinct (keys (documents s)) \<and>
    (\<forall>doc\<in>set (vals (documents s)). length (embedding doc) = D) \<and>
    (\<forall>x\<in>set texts. \<exists>v. emb x = Inr v \<and> length v = D)"
  then obtain docs' where l: "add_loop emb now d md 0 texts (documents s) 0 = (Inr (length texts), docs')"
    and r: "add emb now None s d texts md =
             (Inr (length texts),
              s\<lparr>documents := docs', doc_ids := keys docs',
                embeddings := (if docs' = [] then None else Some (map embedding (vals docs'))),
                data_file := Some (json_dump (map Obj (vals docs')))\<rparr>)"
    using add_success [of s D texts emb now d md] by blast
  have "\<forall>j<length texts. \<exists>v. emb (texts ! j) = Inr v \<and>
      map_of docs' (chunk_id d (0 + j)) = Some (new_document d (0 + j) (texts ! j) v md (now (0 + j)))"
    using l by (rule add_loop_lookup)
  then show "\<exists>s'. add emb now None s d texts md = (Inr (length texts), s') \<and>
         (\<forall>j<length texts. \<exists>v. emb (texts ! j) = Inr v \<and>
            map_of (documents s') (chunk_id d j) = Some (new_document d j (texts ! j) v md (now j)))"
    using r by simp
qed

theorem add_all_or_error_witness:
  "flaky_emb ''first'' = Inr [1, 0] \<and> flaky_emb ''bad'' = Inl EncodeError \<and>
   add flaky_emb two_clock None tie_store ''h'' ([''first''] @ ''bad'' # []) [] =
     (Inl EncodeError,
      tie_store\<lparr>documents := documents tie_store @ [(''h_chunk_0'', new_document ''h'' 0 ''first'' [1, 0] [] ''t0'')]\<rparr>) \<and>
   distinct (keys (documents empty_store)) \<and> unit_emb ''first'' = Inr [1, 0] \<and>
   unit_emb ''second'' = Inr [1, 0] \<and>
   add unit_emb two_clock None empty_store ''g'' [''first'', ''second'']
     [(''source'', MStr ''f.txt'')] = (Inr (length [''first'', ''second'']), tie_store)"
proof -
  have f1: "flaky_emb ''first'' = Inr [1, 0]" and f2: "flaky_emb ''bad'' = Inl EncodeError"
    by (simp_all add: flaky_emb_def)
  have u1: "unit_emb ''first'' = Inr [1, 0]" and u2: "unit_emb ''second'' = Inr [1, 0]"
    by (simp_all add: unit_emb_def)
  have d0: "distinct (keys (documents empty_store))" by (simp add: empty_store_def keys_def)
  have h1: "(\<forall>x\<in>set [''first'']. \<exists>v. flaky_emb x = Inr v) \<and> flaky_emb ''bad'' = Inl EncodeError"
    using f1 f2 by simp
  have "\<exists>s'. add flaky_emb two_clock None tie_store ''h'' ([''first''] @ ''bad'' # []) [] =
          (Inl EncodeError, s') \<and>
         embeddings s' = embeddings tie_store \<and> doc_ids s' = doc_ids tie_store \<and>
         data_file s' = data_file tie_store \<and>
         (\<forall>j<length [''first'']. \<exists>v. flaky_emb ([''first''] ! j) = Inr v \<and>
            map_of (documents s') (chunk_id ''h'' j) =
              Some (new_document ''h'' j ([''first''] ! j) v [] (two_clock j)))"
    using conjunct1 [OF add_all_or_error [where pre = "[''first'']" and emb = flaky_emb and
          t = "''bad''" and e = EncodeError and now = two_clock and io = None and s = tie_store and
          d = "''h''" and post = "[]" and md = "[]"]] h1 by (rule mp)
  then have fail: "\<exists>s'. add flaky_emb two_clock None tie_store ''h'' ([''first''] @ ''bad'' # []) [] =
          (Inl EncodeError, s')"
    by blast
  have e1: "add flaky_emb two_clock None tie_store ''h'' ([''first''] @ ''bad'' # []) [] =
     (Inl EncodeError,
      tie_store\<lparr>documents := documents tie_store @ [(''h_chunk_0'', new_document ''h'' 0 ''first'' [1, 0] [] ''t0'')]\<rparr>)"
    using fail by (simp add: add_def flaky_emb_def tie_store_def chunk_id_def str_nat_digit
        digit_char_0 two_clock_def)
  have h2: "distinct (keys (documents empty_store)) \<and>
    (\<forall>doc\<in>set (vals (documents empty_store)). length (embedding doc) = 2) \<and>
    (\<forall>x\<in>set [''first'', ''second'']. \<exists>v. unit_emb x = Inr v \<and> length v = 2)"
    using d0 by (simp add: empty_store_def vals_def unit_emb_def)
  have "\<exists>s'. add unit_emb two_clock None empty_store ''g'' [''first'', ''second'']
          [(''source'', MStr ''f.txt'')] = (Inr (length [''first'', ''second'']), s') \<and>
         (\<forall>j<length [''first'', ''second'']. \<exists>v. unit_emb ([''first'', ''second''] ! j) = Inr v \<and>
            map_of (documents s') (chunk_id ''g'' j) =
              Some (new_document ''g'' j ([''first'', ''second''] ! j) v [(''source'', MStr ''f.txt'')]
                 (two_clock j)))"
    using conjunct2 [OF add_all_or_error [where s = empty_store and D = 2 and
          texts = "[''first'', ''second'']" and emb = unit_emb and now = two_clock and d = "''g''" and
          md = "[(''source'', MStr ''f.txt'')]"]] h2 by (rule mp)
  then have e2: "add unit_emb two_clock None empty_store ''g'' [''first'', ''second'']
     [(''source'', MStr ''f.txt'')] = (Inr (length [''first'', ''second'']), tie_store)"
    using tie_store_reachable by simp
  show ?thesis
    by (intro conjI) (rule f1, rule f2, rule e1, rule d0, rule u1, rule u2, rule e2)
qed

text \<open>
  Claim C10. Adding to a document \<open>g\<close> that the store already holds does not fail on that
  account and duplicates nothing: whenever the embeddings of the texts succeed with the
  dimension \<open>D\<close> of the stored ones (and the snapshot write succeeds), \<^verbatim>\<open>add\<close> returns the
  number of texts; afterwards no key occurs twice, the keys are the old ones and the ids
  \<open>g_chunk_j\<close>, each \<open>g_chunk_j\<close> holds the new record of the text at position \<open>j\<close>
  (whatever it held before), and every other key holds what it held.
\<close>

theorem add_existing_group_replaces:
  assumes "distinct (keys (documents s))"
    and "\<forall>doc\<in>set (vals (documents s)). length (embedding doc) = D"
    and "\<forall>x\<in>set texts. \<exists>v. emb x = Inr v \<and> length v = D"
  shows "\<exists>s'. add emb now None s g texts md = (Inr (length texts), s') \<and>
           distinct (keys (documents s')) \<and>
           set (keys (documents s')) = set (keys (documents s)) \<union> {chunk_id g j | j. j < length texts} \<and>
           (\<forall>j<length texts. \<exists>v. emb (texts ! j) = Inr v \<and>
              map_of (documents s') (chunk_id g j) = Some (new_document g j (texts ! j) v md (now j))) \<and>
           (\<forall>k. (\<forall>j<length texts. k \<noteq> chunk_id g j) \<longrightarrow>
              map_of (documents s') k = map_of (documents s) k)"
proof -
  obtain docs' where l: "add_loop emb now g md 0 texts (documents s) 0 = (Inr (length texts), docs')"
    and r: "add emb now None s g texts md =
             (Inr (length texts),
              s\<lparr>documents := docs', doc_ids := keys docs',
                embeddings := (if docs' = [] then None else Some (map embedding (vals docs'))),
                data_file := Some (json_dump (map Obj (vals docs')))\<rparr>)"
    using add_success [OF assms, of now g md] by blast
  have "distinct (keys docs')"
    using add_loop_distinct [OF assms(1), of emb now g md 0 texts 0] l by simp
  moreover have "set (keys docs') = set (keys (documents s)) \<union> {chunk_id g (0 + j) | j. j < length texts}"
    using l by (rule keys_add_loop)
  moreover have "\<forall>j<length texts. \<exists>v. emb (texts ! j) = Inr v \<and>
      map_of docs' (chunk_id g (0 + j)) = Some (new_document g (0 + j) (texts ! j) v md (now (0 + j)))"
    using l by (rule add_loop_lookup)
  moreover have "\<forall>k. (\<forall>j<length texts. k \<noteq> chunk_id g j) \<longrightarrow> map_of docs' k = map_of (documents s) k"
    using add_loop_other_keys [of texts _ g 0 emb now md "documents s" 0] l by simp
  ultimately show ?thesis using r by simp
qed

theorem add_existing_group_replaces_witness:
  "distinct (keys (documents tie_store)) \<and> unit_emb ''new'' = Inr [1, 0] \<and>
   map_of (documents tie_store) (chunk_id ''g'' 0) = Some doc_first \<and>
   add unit_emb two_clock None tie_store ''g'' [''new''] [(''source'', MStr ''f.txt'')] =
     (Inr (length [''new'']), readded_store) \<and>
   map_of (documents readded_store) (chunk_id ''g'' 0) = Some doc_new \<and>
   keys (documents readded_store) = keys (documents tie_store)"
proof -
  have d1: "distinct (keys (documents tie_store))" by (simp add: tie_store_def keys_def)
  have u: "unit_emb ''new'' = Inr [1, 0]" by (simp add: unit_emb_def)
  have h2: "\<forall>doc\<in>set (vals (documents tie_store)). length (embedding doc) = 2"
    by (simp add: tie_store_def vals_def doc_first_def doc_second_def)
  have h3: "\<forall>x\<in>set [''new'']. \<exists>v. unit_emb x = Inr v \<and> length v = 2"
    by (simp add: unit_emb_def)
  have c: "chunk_id ''g'' 0 = ''g_chunk_0''"
    by (simp add: chunk_id_def str_nat_digit digit_char_0)
  have m0: "map_of (documents tie_store) (chunk_id ''g'' 0) = Some doc_first"
    by (simp add: c tie_store_def)
  have "\<exists>s'. add unit_emb two_clock None tie_store ''g'' [''new''] [(''source'', MStr ''f.txt'')] =
            (Inr (length [''new'']), s') \<and>
           distinct (keys (documents s')) \<and>
           set (keys (documents s')) =
             set (keys (documents tie_store)) \<union> {chunk_id ''g'' j | j. j < length [''new'']} \<and>
           (\<forall>j<length [''new'']. \<exists>v. unit_emb ([''new''] ! j) = Inr v \<and>
              map_of (documents s') (chunk_id ''g'' j) =
                Some (new_document ''g'' j ([''new''] ! j) v [(''source'', MStr ''f.txt'')] (two_clock j))) \<and>
           (\<forall>k. (\<forall>j<length [''new'']. k \<noteq> chunk_id ''g'' j) \<longrightarrow>
              map_of (documents s') k = map_of (documents tie_store) k)"
    using d1 h2 h3 by (rule add_existing_group_replaces)
  then have a: "add unit_emb two_clock None tie_store ''g'' [''new''] [(''source'', MStr ''f.txt'')] =
     (Inr (length [''new'']), readded_store)"
    using readd_tie_store by simp
  have m1: "map_of (documents readded_store) (chunk_id ''g'' 0) = Some doc_new"
    by (simp add: c readded_store_def)
  have k: "keys (documents readded_store) = keys (documents tie_store)"
    by (simp add: readded_store_def tie_store_def keys_def)
  show ?thesis
    by (intro conjI) (rule d1, rule u, rule m0, rule a, rule m1, rule k)
qed

text \<open>
  Claim C3 says that a save writes to a temporary location and swaps it into place, so that
  an interrupted write leaves the previous snapshot intact. \<^verbatim>\<open>_save\<close> opens the data file
  itself for writing: the first file operation truncates it. A write that stops after two
  operations has replaced a snapshot that parsed by the text \<open>[\<close>, which does not.
\<close>

theorem save_interrupted_counterexample:
  "data_file tie_store = Some (json_dump [Obj doc_first, Obj doc_second]) \<and>
   json_load (json_dump [Obj doc_first, Obj doc_second]) =
     Some (JArray [Obj doc_first, Obj doc_second]) \<and>
   hd (save_ops tie_store) = Truncate \<and>
   save (Some 2) tie_store = (Inl OSError, tie_store\<lparr>data_file := Some [LBracket]\<rparr>) \<and>
   json_load [LBracket] = None"
  by (simp add: tie_store_def json_load_dump save_def save_ops_def run_ops_def json_dump_def
      vals_def)

text \<open>
  Claim C3, as amended. Every save writes the entire current record set, in place: it
  truncates the snapshot file and writes the new text into it. A save that completes leaves
  a snapshot that parses to exactly the current records, in order. A save that stops after
  \<open>n\<close> file operations, \<open>n\<close> at least one and not all of them, fails and leaves in the file
  the first \<open>n - 1\<close> tokens of the new text, which do not parse.
\<close>

theorem save_writes_in_place:
  "save None s = (Inr (), s\<lparr>data_file := Some (json_dump (map Obj (vals (documents s))))\<rparr>) \<and>
   json_load (json_dump (map Obj (vals (documents s)))) =
     Some (JArray (map Obj (vals (documents s)))) \<and>
   hd (save_ops s) = Truncate \<and>
   (0 < n \<and> n < length (save_ops s) \<longrightarrow>
      save (Some n) s =
        (Inl OSError, s\<lparr>data_file := Some (take (n - 1) (json_dump (map Obj (vals (documents s)))))\<rparr>) \<and>
      json_load (take (n - 1) (json_dump (map Obj (vals (documents s))))) = None)"
proof (intro conjI impI)
  show "save None s = (Inr (), s\<lparr>data_file := Some (json_dump (map Obj (vals (documents s))))\<rparr>)"
    by (rule save_completes)
  show "json_load (json_dump (map Obj (vals (documents s)))) =
      Some (JArray (map Obj (vals (documents s))))"
    by (rule json_load_dump)
  show "hd (save_ops s) = Truncate" by (simp add: save_ops_def)
next
  assume n: "0 < n \<and> n < length (save_ops s)"
  then have "run_ops (data_file s) (take n (save_ops s)) =
      Some (take (n - 1) (json_dump (map Obj (vals (documents s)))))"
    unfolding save_ops_def by (simp add: run_ops_prefix)
  then show "save (Some n) s =
        (Inl OSError, s\<lparr>data_file := Some (take (n - 1) (json_dump (map Obj (vals (documents s)))))\<rparr>)"
    using n by (simp add: save_def)
next
  assume n: "0 < n \<and> n < length (save_ops s)"
  then have "n - 1 < length (json_dump (map Obj (vals (documents s))))"
    unfolding length_save_ops by arith
  then show "json_load (take (n - 1) (json_dump (map Obj (vals (documents s))))) = None"
    by (rule json_load_prefix)
qed

theorem save_writes_in_place_witness:
  "(0 :: nat) < 2 \<and> 2 < length (save_ops tie_store) \<and>
   save (Some 2) tie_store = (Inl OSError, tie_store\<lparr>data_file := Some [LBracket]\<rparr>) \<and>
   json_load [LBracket] = None"
proof -
  have h: "(0 :: nat) < 2 \<and> 2 < length (save_ops tie_store)"
    by (simp add: length_save_ops json_dump_def tie_store_def vals_def)
  have t: "take (2 - 1) (json_dump (map Obj (vals (documents tie_store)))) = [LBracket]"
    by (simp add: json_dump_def)
  have "save (Some 2) tie_store =
        (Inl OSError, tie_store\<lparr>data_file := Some (take (2 - 1) (json_dump (map Obj (vals (documents tie_store)))))\<rparr>) \<and>
      json_load (take (2 - 1) (json_dump (map Obj (vals (documents tie_store))))) = None"
    using conjunct2 [OF conjunct2 [OF conjunct2 [OF save_writes_in_place [of tie_store 2]]]] h
    by (rule mp)
  then have "save (Some 2) tie_store = (Inl OSError, tie_store\<lparr>data_file := Some [LBracket]\<rparr>) \<and>
      json_load [LBracket] = None"
    unfolding t .
  then show ?thesis using h by blast
qed

text \<open>
  Claim C5. Without a snapshot file the store starts empty, and so it does, with the
  failure printed, when the file does not parse (\<open>init_missing\<close>, \<open>init_unparsable\<close>
  above). But the claim fails for a snapshot that parses and holds an entry that is not a
  record after one that is: the loop of \<^verbatim>\<open>_load\<close> has stored the first record when the
  second raises, the handler prints the error and resets nothing, and the index is never
  built. The store starts with one record retained from the corrupt snapshot, and with no
  index.
\<close>

theorem load_partial_snapshot_retained:
  "json_load partial_snapshot = Some (JArray [Obj doc_first, Malformed]) \<and>
   init (Some partial_snapshot) =
     (\<lparr>documents = [(''g_chunk_0'', doc_first)], embeddings = None, doc_ids = [],
       data_file = Some partial_snapshot\<rparr>, Some TypeError)"
  by (simp add: partial_snapshot_def init_def load_def iterate_def doc_first_def)

text \<open>
  Claim C8. For a document \<open>g\<close> that has records in the store, whose chunk indices are
  integers (as in every record that \<^verbatim>\<open>add\<close> builds, \<open>new_document_chunk_index\<close>),
  \<^verbatim>\<open>get_document_content\<close> returns the chunks of its records sorted by chunk index
  ascending (a stable sort of them, whatever their order in the store), the full content
  being the chunks' contents in that order joined by a blank line, and the chunk count the
  number of its records. For a document with no record it returns \<^verbatim>\<open>None\<close> and does not
  raise.
\<close>

theorem get_document_content_ordered:
  "((\<forall>doc\<in>set (vals (documents s)). doc_id doc \<noteq> g) \<longrightarrow> get_document_content s g = Inr None) \<and>
   (group_members s g \<noteq> [] \<and> (\<forall>doc\<in>set (group_members s g). is_MInt (index (chunk_of doc))) \<longrightarrow>
      (\<exists>r. get_document_content s g = Inr (Some r) \<and> res_doc_id r = g \<and>
           chunks_detail r = sort_key (\<lambda>c. the_int (index c)) (map chunk_of (group_members s g)) \<and>
           sorted (map (\<lambda>c. the_int (index c)) (chunks_detail r)) \<and>
           full_content r = join [CHR 0x0A, CHR 0x0A] (map chunk_content (chunks_detail r)) \<and>
           chunks r = length (group_members s g)))"
proof (intro conjI impI)
  assume "\<forall>doc\<in>set (vals (documents s)). doc_id doc \<noteq> g"
  then have "group_members s g = []" by (simp add: group_members_def filter_empty_conv)
  then show "get_document_content s g = Inr None" by (simp add: get_document_content_eq)
next
  assume a: "group_members s g \<noteq> [] \<and> (\<forall>doc\<in>set (group_members s g). is_MInt (index (chunk_of doc)))"
  let ?cs = "sort_key (\<lambda>c. the_int (index c)) (map chunk_of (group_members s g))"
  have "sort_chunks (map chunk_of (group_members s g)) = Inr ?cs"
    using a by (intro sort_chunks_int) auto
  then have "get_document_content s g =
      Inr (Some \<lparr>res_doc_id = g,
                 name = dict_get_default (metadata (hd (group_members s g))) ''source'' (MStr ''Unknown''),
                 chunks = length ?cs,
                 full_content = join [CHR 0x0A, CHR 0x0A] (map chunk_content ?cs),
                 chunks_detail = ?cs\<rparr>)"
    using a by (simp add: get_document_content_eq)
  moreover have "sorted (map (\<lambda>c. the_int (index c)) ?cs)" by (rule sorted_sort_key)
  ultimately show "\<exists>r. get_document_content s g = Inr (Some r) \<and> res_doc_id r = g \<and>
           chunks_detail r = sort_key (\<lambda>c. the_int (index c)) (map chunk_of (group_members s g)) \<and>
           sorted (map (\<lambda>c. the_int (index c)) (chunks_detail r)) \<and>
           full_content r = join [CHR 0x0A, CHR 0x0A] (map chunk_content (chunks_detail r)) \<and>
           chunks r = length (group_members s g)"
    by simp
qed

theorem get_document_content_ordered_witness:
  "get_document_content reversed_store ''h'' = Inr None \<and>
   group_members reversed_store ''g'' = [doc_second, doc_first] \<and>
   index (chunk_of doc_second) = MInt 1 \<and> index (chunk_of doc_first) = MInt 0 \<and>
   get_document_content reversed_store ''g'' =
     Inr (Some \<lparr>res_doc_id = ''g'', name = MStr ''f.txt'', chunks = 2,
                full_content = ''first'' @ [CHR 0x0A, CHR 0x0A] @ ''second'',
                chunks_detail = [\<lparr>index = MInt 0, chunk_content = ''first''\<rparr>,
                                 \<lparr>index = MInt 1, chunk_content = ''second''\<rparr>]\<rparr>)"
proof -
  have m: "group_members reversed_store ''g'' = [doc_second, doc_first]"
    by (simp add: group_members_def reversed_store_def vals_def doc_first_def doc_second_def)
  have i1: "index (chunk_of doc_second) = MInt 1" and i0: "index (chunk_of doc_first) = MInt 0"
    by (simp_all add: chunk_of_def dict_get_default_def doc_first_def doc_second_def)
  have h0: "\<forall>doc\<in>set (vals (documents reversed_store)). doc_id doc \<noteq> ''h''"
    by (simp add: reversed_store_def vals_def doc_first_def doc_second_def)
  have n: "get_document_content reversed_store ''h'' = Inr None"
    using conjunct1 [OF get_document_content_ordered [of reversed_store "''h''"]] h0 by (rule mp)
  have h1: "group_members reversed_store ''g'' \<noteq> [] \<and>
      (\<forall>doc\<in>set (group_members reversed_store ''g''). is_MInt (index (chunk_of doc)))"
    by (simp add: m i0 i1)
  have "\<exists>r. get_document_content reversed_store ''g'' = Inr (Some r) \<and> res_doc_id r = ''g'' \<and>
           chunks_detail r = sort_key (\<lambda>c. the_int (index c)) (map chunk_of (group_members reversed_store ''g'')) \<and>
           sorted (map (\<lambda>c. the_int (index c)) (chunks_detail r)) \<and>
           full_content r = join [CHR 0x0A, CHR 0x0A] (map chunk_content (chunks_detail r)) \<and>
           chunks r = length (group_members reversed_store ''g'')"
    using conjunct2 [OF get_document_content_ordered [of reversed_store "''g''"]] h1 by (rule mp)
  then have g: "get_document_content reversed_store ''g'' =
     Inr (Some \<lparr>res_doc_id = ''g'', name = MStr ''f.txt'', chunks = 2,
                full_content = ''first'' @ [CHR 0x0A, CHR 0x0A] @ ''second'',
                chunks_detail = [\<lparr>index = MInt 0, chunk_content = ''first''\<rparr>,
                                 \<lparr>index = MInt 1, chunk_content = ''second''\<rparr>]\<rparr>)"
    by (simp add: get_document_content_eq m sort_chunks_def chunk_of_def dict_get_default_def
        doc_first_def doc_second_def)
  show ?thesis by (intro conjI) (rule n, rule m, rule i1, rule i0, rule g)
qed

end
